theory Spec2Isabelle
  imports Main "HOL-Library.Multiset" "HOL-Library.Sublist"
begin

section \<open>Text: Python strings over the code points below 256\<close>

text \<open>
  A Python \<open>str\<close> is modelled as a \<open>string\<close>: a list of characters, each read as the
  Unicode code point of the same number (0 to 255, the Latin-1 range). The three
  character classes below are the ones the source relies on, written out for that range:
  \<open>str.isspace\<close> (which is also the class \<open>\s\<close> of \<open>re\<close>), the class \<open>\w\<close> of \<open>re\<close>,
  and the characters that \<open>str.lower\<close> changes.
\<close>

definition is_space :: "char \<Rightarrow> bool" where
  "is_space c =
     (let n = (of_char c :: nat)
      in (9 \<le> n \<and> n \<le> 13) \<or> (28 \<le> n \<and> n \<le> 32) \<or> n = 133 \<or> n = 160)"

definition is_upper :: "char \<Rightarrow> bool" where
  "is_upper c =
     (let n = (of_char c :: nat)
      in (65 \<le> n \<and> n \<le> 90) \<or> (192 \<le> n \<and> n \<le> 222 \<and> n \<noteq> 215))"

definition is_word :: "char \<Rightarrow> bool" where
  "is_word c =
     (let n = (of_char c :: nat)
      in (48 \<le> n \<and> n \<le> 57) \<or> (65 \<le> n \<and> n \<le> 90) \<or> n = 95 \<or> (97 \<le> n \<and> n \<le> 122)
         \<or> n = 170 \<or> n = 178 \<or> n = 179 \<or> n = 181 \<or> n = 185 \<or> n = 186
         \<or> (188 \<le> n \<and> n \<le> 190) \<or> (192 \<le> n \<and> n \<le> 214)
         \<or> (216 \<le> n \<and> n \<le> 246) \<or> (248 \<le> n \<and> n \<le> 255))"

definition lower_char :: "char \<Rightarrow> char" where
  "lower_char c = (if is_upper c then char_of ((of_char c :: nat) + 32) else c)"

text \<open>\<open>str.lower()\<close>, \<open>str.strip()\<close>.\<close>

definition py_lower :: "string \<Rightarrow> string" where
  "py_lower s = map lower_char s"

definition py_lstrip :: "string \<Rightarrow> string" where
  "py_lstrip s = dropWhile is_space s"

definition py_rstrip :: "string \<Rightarrow> string" where
  "py_rstrip s = rev (dropWhile is_space (rev s))"

definition py_strip :: "string \<Rightarrow> string" where
  "py_strip s = py_rstrip (py_lstrip s)"

text \<open>
  \<open>re.sub(r"[...]+", repl, text)\<close> for a character class \<open>P\<close>: every maximal run of
  characters of the class is replaced by \<open>repl\<close> (the matches are leftmost, greedy and
  do not overlap). \<open>re.sub(r"[...]", repl, text)\<close>, without the \<open>+\<close>, replaces every
  character of the class on its own.
\<close>

function sub_class_plus :: "(char \<Rightarrow> bool) \<Rightarrow> string \<Rightarrow> string \<Rightarrow> string" where
  "sub_class_plus P repl [] = []"
| "sub_class_plus P repl (c # cs) =
     (if P c then repl @ sub_class_plus P repl (dropWhile P cs)
      else c # sub_class_plus P repl cs)"
  by pat_completeness auto
termination
  by (relation "measure (\<lambda>(P, repl, s). length s)")
     (auto simp: length_dropWhile_le less_Suc_eq_le)

definition sub_class :: "(char \<Rightarrow> bool) \<Rightarrow> string \<Rightarrow> string \<Rightarrow> string" where
  "sub_class P repl s = concat (map (\<lambda>c. if P c then repl else [c]) s)"

text \<open>The three classes of \<open>normalize_text\<close>: \<open>[_\-]\<close>, \<open>\s\<close> and \<open>[^\w\s()/]\<close>.\<close>

definition is_sep :: "char \<Rightarrow> bool" where
  "is_sep c = (c = CHR ''_'' \<or> c = CHR ''-'')"

definition is_special :: "char \<Rightarrow> bool" where
  "is_special c =
     (\<not> (is_word c \<or> is_space c \<or> c = CHR ''('' \<or> c = CHR '')'' \<or> c = CHR ''/''))"

section \<open>Cells and text normalization\<close>

text \<open>
  A cell of a DataFrame: a Python string, an integer, a boolean, or the missing value
  \<open>NaN\<close> that the readers put into empty cells. Floating-point cells other than \<open>NaN\<close>
  are not modelled.
\<close>

datatype cell = StrV string | IntV int | BoolV bool | NaN

text \<open>The string branch of \<open>normalize_text\<close>, one line of the source per step.\<close>

definition normalize_str :: "string \<Rightarrow> string" where
  "normalize_str text0 =
     (let text1 = py_strip (py_lower text0);
          text2 = sub_class_plus is_sep '' '' text1;
          text3 = sub_class_plus is_space '' '' text2;
          text4 = sub_class is_special [] text3
      in text4)"

fun normalize_text :: "cell \<Rightarrow> cell" where
  "normalize_text (StrV s) = StrV (normalize_str s)"
| "normalize_text v = v"

text \<open>\<open>str(value)\<close>: the missing value prints as \<open>nan\<close>.\<close>

definition digit_char :: "nat \<Rightarrow> char" where
  "digit_char d = char_of (48 + d)"

fun dec_nat :: "nat \<Rightarrow> string" where
  "dec_nat n = (if n < 10 then [digit_char n] else dec_nat (n div 10) @ [digit_char (n mod 10)])"

declare dec_nat.simps [simp del]

definition dec_int :: "int \<Rightarrow> string" where
  "dec_int i = (if i < 0 then CHR ''-'' # dec_nat (nat (- i)) else dec_nat (nat i))"

fun str_of_cell :: "cell \<Rightarrow> string" where
  "str_of_cell (StrV s) = s"
| "str_of_cell (IntV i) = dec_int i"
| "str_of_cell (BoolV b) = (if b then ''True'' else ''False'')"
| "str_of_cell NaN = ''nan''"

text \<open>
  \<open>Series.astype(str)\<close> turns every value that is not missing into its string form. What
  it does to a missing value depends on the pandas the program runs on, and the repository
  names no version: before pandas 3 the missing value becomes the text \<open>nan\<close>, from
  pandas 3 on it stays missing. The version is therefore a parameter of every function
  that converts a column, and the properties below are proved for both.
\<close>

datatype pandas = Before3 | From3

fun astype_cell :: "pandas \<Rightarrow> cell \<Rightarrow> cell" where
  "astype_cell pv NaN = (if pv = Before3 then StrV ''nan'' else NaN)"
| "astype_cell pv c = StrV (str_of_cell c)"

definition astype_str :: "pandas \<Rightarrow> cell list \<Rightarrow> cell list" where
  "astype_str pv xs = map (astype_cell pv) xs"

section \<open>Tables\<close>

text \<open>
  A DataFrame: its columns in order, each with a name and a dtype, and its rows in order,
  each with its index label and one cell per column. The column names of a DataFrame read
  from a file are unique, so \<open>df[df.columns[j]]\<close> is column \<open>j\<close>; the rows of
  \<open>pd.concat(dfs, ignore_index=True)\<close> are labelled \<open>0, 1, 2, ...\<close>, and a selection of rows
  keeps their labels.
\<close>

datatype dtype = ObjectT | NumericT | BoolT

type_synonym row = "nat \<times> cell list"

record table =
  columns :: "(string \<times> dtype) list"
  rows :: "row list"

text \<open>All rows of a table have one cell per column.\<close>

definition rectangular :: "table \<Rightarrow> bool" where
  "rectangular t = list_all (\<lambda>r. length (snd r) = length (columns t)) (rows t)"

text \<open>\<open>pd.DataFrame()\<close>, \<open>df.empty\<close>, \<open>df.shape[1]\<close>.\<close>

definition empty_df :: table where
  "empty_df = \<lparr>columns = [], rows = []\<rparr>"

definition df_empty :: "table \<Rightarrow> bool" where
  "df_empty t = (columns t = [] \<or> rows t = [])"

definition ncols :: "table \<Rightarrow> nat" where
  "ncols t = length (columns t)"

text \<open>
  Column \<open>j\<close> as a sequence of cells, and the textual columns by position:
  \<open>select_dtypes(include=["object", "string"])\<close>, for which \<open>ObjectT\<close> stands.
\<close>

definition col :: "nat \<Rightarrow> table \<Rightarrow> cell list" where
  "col j t = map (\<lambda>r. snd r ! j) (rows t)"

definition select_dtypes_object :: "table \<Rightarrow> nat list" where
  "select_dtypes_object t = filter (\<lambda>j. snd (columns t ! j) = ObjectT) [0 ..< length (columns t)]"

text \<open>\<open>df[mask]\<close> for a boolean mask aligned with the rows.\<close>

definition mask_rows :: "table \<Rightarrow> bool list \<Rightarrow> table" where
  "mask_rows t bmask = t\<lparr>rows := map fst (filter snd (zip (rows t) bmask))\<rparr>"

section \<open>Deduplication (lines 110 to 124)\<close>

text \<open>
  \<open>normalized_df[col] = normalized_df[col].astype(str).apply(normalize_text)\<close> for one
  column, and the loop over the object columns.
\<close>

definition normalize_column :: "pandas \<Rightarrow> nat \<Rightarrow> table \<Rightarrow> table" where
  "normalize_column pv j t =
     t\<lparr>columns := (columns t)[j := (fst (columns t ! j), ObjectT)],
       rows := map (\<lambda>r. (fst r, (snd r)[j := normalize_text (astype_cell pv (snd r ! j))]))
                   (rows t)\<rparr>"

definition normalized_df :: "pandas \<Rightarrow> table \<Rightarrow> table" where
  "normalized_df pv df_working =
     fold (normalize_column pv) (select_dtypes_object df_working) df_working"

text \<open>
  \<open>duplicated(subset=[c], keep="first")\<close> on the values of column \<open>c\<close>: a row is marked
  when an earlier row holds an equal value (two missing values count as equal).
\<close>

fun duplicated_from :: "cell list \<Rightarrow> cell list \<Rightarrow> bool list" where
  "duplicated_from seen [] = []"
| "duplicated_from seen (k # ks) = (k \<in> set seen) # duplicated_from (k # seen) ks"

definition duplicated :: "cell list \<Rightarrow> bool list" where
  "duplicated ks = duplicated_from [] ks"

record dedup_result =
  kept :: table
  removed :: table
  warnings :: "string list"

definition dedup_keys :: "pandas \<Rightarrow> table \<Rightarrow> cell list" where
  "dedup_keys pv df_working = col 1 (normalized_df pv df_working)"

definition deduplicate :: "pandas \<Rightarrow> table \<Rightarrow> dedup_result" where
  "deduplicate pv df_working =
     (if ncols (normalized_df pv df_working) > 1 then
        let duplicates_mask = duplicated (dedup_keys pv df_working);
            keep_mask = map Not duplicates_mask
        in \<lparr>kept = mask_rows df_working keep_mask,
            removed = mask_rows df_working duplicates_mask,
            warnings = []\<rparr>
      else
        \<lparr>kept = df_working,
         removed = empty_df,
         warnings = [''Dataset has only one column; skipping second-column deduplication.'']\<rparr>)"

section \<open>Global search (\<open>text_search\<close>)\<close>

text \<open>
  \<open>Series.str.contains(query, case=False, na=False)\<close> keeps pandas' default \<open>regex=True\<close>:
  the query is compiled as a regular expression and searched with \<open>re.IGNORECASE\<close>.
  The fragment of the pattern syntax modelled here is: a character that is not a
  metacharacter stands for itself, and \<open>.\<close> stands for any character but a newline. A
  pattern with any other metacharacter is outside the fragment, and the model says so
  instead of giving an answer.
\<close>

datatype failure = IndexError | KeyError | UnmodelledPattern

datatype re_item = Lit char | AnyChar

definition re_meta :: "char \<Rightarrow> bool" where
  "re_meta c = (c = CHR 0x5C \<or> c \<in> set ''^$*+?{}[]()|.'')"

fun re_compile :: "string \<Rightarrow> re_item list option" where
  "re_compile [] = Some []"
| "re_compile (c # cs) =
     (if c = CHR ''.'' then map_option ((#) AnyChar) (re_compile cs)
      else if re_meta c then None
      else map_option ((#) (Lit c)) (re_compile cs))"

fun re_match_here :: "re_item list \<Rightarrow> string \<Rightarrow> bool" where
  "re_match_here [] s = True"
| "re_match_here (i # is) [] = False"
| "re_match_here (Lit p # is) (c # cs) = (lower_char p = lower_char c \<and> re_match_here is cs)"
| "re_match_here (AnyChar # is) (c # cs) = (c \<noteq> CHR 0x0A \<and> re_match_here is cs)"

fun re_search :: "re_item list \<Rightarrow> string \<Rightarrow> bool" where
  "re_search p [] = re_match_here p []"
| "re_search p (c # cs) = (re_match_here p (c # cs) \<or> re_search p cs)"

definition str_contains :: "string \<Rightarrow> cell list \<Rightarrow> failure + bool list" where
  "str_contains pat xs =
     (case re_compile pat of
        None \<Rightarrow> Inl UnmodelledPattern
      | Some p \<Rightarrow> Inr (map (\<lambda>c. case c of StrV s \<Rightarrow> re_search p s | _ \<Rightarrow> False) xs))"

fun or_columns ::
  "pandas \<Rightarrow> table \<Rightarrow> string \<Rightarrow> nat list \<Rightarrow> bool list \<Rightarrow> failure + bool list" where
  "or_columns pv df query [] bmask = Inr bmask"
| "or_columns pv df query (j # js) bmask =
     (case str_contains query (astype_str pv (col j df)) of
        Inl e \<Rightarrow> Inl e
      | Inr m \<Rightarrow> or_columns pv df query js (map2 (\<or>) bmask m))"

definition text_search :: "pandas \<Rightarrow> table \<Rightarrow> string \<Rightarrow> failure + table" where
  "text_search pv df query =
     (if query = [] then Inr df
      else (case or_columns pv df query (select_dtypes_object df)
                   (replicate (length (rows df)) False) of
              Inl e \<Rightarrow> Inl e
            | Inr bmask \<Rightarrow> Inr (mask_rows df bmask)))"

text \<open>
  The search the specification describes: the query as a literal, case-insensitive
  substring of the string form of a cell of some textual column (a cell that stays
  missing has no string form). \<open>na=False\<close> makes a missing cell match nothing.
\<close>

definition contains_ci :: "string \<Rightarrow> string \<Rightarrow> bool" where
  "contains_ci query s = sublist (py_lower query) (py_lower s)"

definition cell_contains_ci :: "string \<Rightarrow> cell \<Rightarrow> bool" where
  "cell_contains_ci query c = (case c of StrV s \<Rightarrow> contains_ci query s | _ \<Rightarrow> False)"

definition row_matches :: "pandas \<Rightarrow> table \<Rightarrow> string \<Rightarrow> row \<Rightarrow> bool" where
  "row_matches pv df query r =
     list_ex (\<lambda>j. cell_contains_ci query (astype_cell pv (snd r ! j))) (select_dtypes_object df)"

definition literal_search :: "pandas \<Rightarrow> table \<Rightarrow> string \<Rightarrow> table" where
  "literal_search pv df query =
     (if query = [] then df else df\<lparr>rows := filter (row_matches pv df query) (rows df)\<rparr>)"

section \<open>Columns by name\<close>

text \<open>
  \<open>df[name] = values\<close> overwrites the column of that name where it is, or appends a new
  last column. \<open>df.drop(columns=names, errors="ignore")\<close> removes every column whose name
  is listed; without \<open>errors="ignore"\<close> a listed name that is no column raises KeyError.
\<close>

fun col_pos :: "string \<Rightarrow> (string \<times> dtype) list \<Rightarrow> nat option" where
  "col_pos name [] = None"
| "col_pos name (c # cs) = (if fst c = name then Some 0 else map_option Suc (col_pos name cs))"

definition set_column :: "string \<Rightarrow> dtype \<Rightarrow> cell list \<Rightarrow> table \<Rightarrow> table" where
  "set_column name dt vals t =
     (case col_pos name (columns t) of
        Some j \<Rightarrow>
          t\<lparr>columns := (columns t)[j := (name, dt)],
            rows := map2 (\<lambda>r v. (fst r, (snd r)[j := v])) (rows t) vals\<rparr>
      | None \<Rightarrow>
          t\<lparr>columns := columns t @ [(name, dt)],
            rows := map2 (\<lambda>r v. (fst r, snd r @ [v])) (rows t) vals\<rparr>)"

definition drop_cells :: "string list \<Rightarrow> (string \<times> dtype) list \<Rightarrow> cell list \<Rightarrow> cell list" where
  "drop_cells names cols cs = map snd (filter (\<lambda>p. fst (fst p) \<notin> set names) (zip cols cs))"

definition drop_columns :: "string list \<Rightarrow> table \<Rightarrow> table" where
  "drop_columns names t =
     t\<lparr>columns := filter (\<lambda>c. fst c \<notin> set names) (columns t),
       rows := map (\<lambda>r. (fst r, drop_cells names (columns t) (snd r))) (rows t)\<rparr>"

definition drop_columns_strict :: "string list \<Rightarrow> table \<Rightarrow> failure + table" where
  "drop_columns_strict names t =
     (if list_all (\<lambda>n. n \<in> set (map fst (columns t))) names then Inr (drop_columns names t)
      else Inl KeyError)"

definition enumerate :: "'a list \<Rightarrow> (nat \<times> 'a) list" where
  "enumerate xs = zip [0 ..< length xs] xs"

section \<open>Grouping (\<open>groupby(key, sort=False)\<close>)\<close>

text \<open>
  The groups are built in one scan of the rows from top to bottom: a row joins the group
  of its key at the end of that group, and a key not seen before opens a new last group.
  Rows whose key is missing are left out (pandas' default \<open>dropna=True\<close>).
\<close>

fun insert_group :: "cell \<Rightarrow> row \<Rightarrow> (cell \<times> row list) list \<Rightarrow> (cell \<times> row list) list" where
  "insert_group k r [] = [(k, [r])]"
| "insert_group k r (g # gs) =
     (if fst g = k then (fst g, snd g @ [r]) # gs else g # insert_group k r gs)"

definition group_step :: "(row \<Rightarrow> cell) \<Rightarrow> row \<Rightarrow> (cell \<times> row list) list \<Rightarrow> (cell \<times> row list) list" where
  "group_step key = (\<lambda>r gs. if key r = NaN then gs else insert_group (key r) r gs)"

definition groupby_rows :: "(row \<Rightarrow> cell) \<Rightarrow> row list \<Rightarrow> (cell \<times> row list) list" where
  "groupby_rows key rs = fold (group_step key) rs []"

definition groupby :: "string \<Rightarrow> table \<Rightarrow> failure + (cell \<times> table) list" where
  "groupby name t =
     (case col_pos name (columns t) of
        None \<Rightarrow> Inl KeyError
      | Some j \<Rightarrow> Inr (map (\<lambda>g. (fst g, t\<lparr>rows := snd g\<rparr>)) (groupby_rows (\<lambda>r. snd r ! j) (rows t))))"

text \<open>\<open>Series.str.lower()\<close>: a cell that is no string becomes missing.\<close>

definition str_lower :: "cell list \<Rightarrow> cell list" where
  "str_lower xs = map (\<lambda>c. case c of StrV s \<Rightarrow> StrV (py_lower s) | _ \<Rightarrow> NaN) xs"

text \<open>
  \<open>df["_group_key"] = df[parent_col].astype(str).str.lower()\<close> followed by
  \<open>df.groupby("_group_key", sort=False)\<close>, as lines 71 and 72, 135 and 136, 162 and 163
  have it; the parent column is the first one.
\<close>

definition add_group_key :: "pandas \<Rightarrow> table \<Rightarrow> table" where
  "add_group_key pv df =
     set_column ''_group_key'' ObjectT (str_lower (astype_str pv (col 0 df))) df"

definition parent_groups :: "pandas \<Rightarrow> table \<Rightarrow> failure + (cell \<times> table) list" where
  "parent_groups pv df = groupby ''_group_key'' (add_group_key pv df)"

text \<open>
  The order the specification describes: each key where the scan first meets it. The key
  of a row is the lower-cased string form of its parent cell; a parent cell that stays
  missing gives no key.
\<close>

fun first_seen :: "cell list \<Rightarrow> cell list \<Rightarrow> cell list" where
  "first_seen seen [] = []"
| "first_seen seen (k # ks) =
     (if k \<in> set seen then first_seen seen ks else k # first_seen (k # seen) ks)"

definition group_key_of :: "pandas \<Rightarrow> row \<Rightarrow> cell" where
  "group_key_of pv r =
     (case astype_cell pv (snd r ! 0) of StrV s \<Rightarrow> StrV (py_lower s) | _ \<Rightarrow> NaN)"

section \<open>The grouped preview (\<open>format_cell\<close>, \<open>generate_parent_grouped_html\<close>)\<close>

text \<open>
  \<open>pattern.sub(lambda m: f"<mark>{m.group(0)}</mark>", text)\<close> for the pattern
  \<open>re.compile(re.escape(search_term), re.IGNORECASE)\<close>: the occurrences of the term,
  compared without case, are wrapped from left to right without overlap.
\<close>

function highlight :: "string \<Rightarrow> string \<Rightarrow> string" where
  "highlight term [] = []"
| "highlight term (c # cs) =
     (if term \<noteq> [] \<and> length term \<le> length (c # cs)
         \<and> py_lower (take (length term) (c # cs)) = py_lower term
      then ''<mark>'' @ take (length term) (c # cs) @ ''</mark>''
             @ highlight term (drop (length term) (c # cs))
      else c # highlight term cs)"
  by pat_completeness auto
termination
  by (relation "measure (\<lambda>(term, s). length s)") (auto simp: Suc_le_eq)

text \<open>A search term that is \<open>None\<close> or empty is the empty string here: both are falsy.\<close>

definition format_cell :: "cell \<Rightarrow> string \<Rightarrow> string" where
  "format_cell v search_term =
     (if v = NaN \<or> py_lower (py_strip (str_of_cell v)) \<in> set ['''', ''nan'', ''na'', ''none'']
      then ''<span style='color:red;'>No Definition</span>''
      else let text0 = str_of_cell v
           in if search_term \<noteq> [] then highlight search_term text0 else text0)"

definition header_cell :: "nat \<Rightarrow> string \<Rightarrow> string" where
  "header_cell i c =
     (if i = 0 then ''<th style='width:20%'>'' @ c @ ''</th>''
      else if i = 1 then ''<th style='width:30%'>'' @ c @ ''</th>''
      else if i = 3 then ''<th style='width:50%'>'' @ c @ ''</th>''
      else ''<th>'' @ c @ ''</th>'')"

definition child_cell :: "nat \<Rightarrow> string \<Rightarrow> string" where
  "child_cell j cell_value =
     (if j = 0 then ''<td style='width:30%'>'' @ cell_value @ ''</td>''
      else if j = 2 then ''<td style='width:50%'>'' @ cell_value @ ''</td>''
      else ''<td>'' @ cell_value @ ''</td>'')"

definition row_html :: "string \<Rightarrow> cell \<Rightarrow> nat \<Rightarrow> nat list \<Rightarrow> nat \<Rightarrow> row \<Rightarrow> string" where
  "row_html search_term original_parent rowspan child_cols i r =
     ''<tr>''
     @ (if i = 0
        then ''<td rowspan='' @ [CHR 0x27] @ dec_nat rowspan @ [CHR 0x27]
               @ '' style='vertical-align: top; font-weight:bold;'>''
               @ format_cell original_parent search_term @ ''</td>''
        else [])
     @ concat (map (\<lambda>jc. child_cell (fst jc) (format_cell (snd r ! snd jc) search_term))
                   (enumerate child_cols))
     @ ''</tr>''"

text \<open>Every group has a first row (\<open>group.iloc[0]\<close>), since a group is opened by a row.\<close>

definition group_html :: "string \<Rightarrow> nat list \<Rightarrow> table \<Rightarrow> string" where
  "group_html search_term child_cols g =
     (let rowspan = length (rows g);
          original_parent = snd (hd (rows g)) ! 0
      in concat (map (\<lambda>ir. row_html search_term original_parent rowspan child_cols (fst ir) (snd ir))
                     (enumerate (rows g))))"

text \<open>The opening of the table and its header row (lines 55 to 68).\<close>

definition table_head :: "table \<Rightarrow> string" where
  "table_head df =
     ''<table border='1' style='border-collapse:collapse; width:100%; text-align:left;'>''
     @ ''<tr>''
     @ concat (map (\<lambda>ic. header_cell (fst ic) (snd ic)) (enumerate (map fst (columns df))))
     @ ''</tr>''"

text \<open>
  The function returns the markup and leaves \<open>df\<close> changed in place; the model returns
  both the markup and \<open>df\<close> as it is after the call. \<open>df.columns[0]\<close> raises IndexError
  for a table without columns, before anything is changed.
\<close>

definition generate_parent_grouped_html ::
  "pandas \<Rightarrow> table \<Rightarrow> string \<Rightarrow> failure + (string \<times> table)" where
  "generate_parent_grouped_html pv df search_term =
     (case columns df of
        [] \<Rightarrow> Inl IndexError
      | parent_col # child_cols \<Rightarrow>
          (let html0 = table_head df
           in (case parent_groups pv df of
                 Inl e \<Rightarrow> Inl e
               | Inr grouped \<Rightarrow>
                   (let html1 = html0
                          @ concat (map (\<lambda>g. group_html search_term [1 ..< length (columns df)] (snd g))
                                        grouped)
                          @ ''</table>''
                    in (case drop_columns_strict [''_group_key''] (add_group_key pv df) of
                          Inl e \<Rightarrow> Inl e
                        | Inr df2 \<Rightarrow> Inr (html1, df2))))))"

section \<open>Selection and export (lines 157 to 222)\<close>

text \<open>
  The checkboxes are the input of this part: \<open>ui label key\<close> is what
  \<open>st.checkbox(label, key=key)\<close> returns in this run. \<open>df.at[label, name] = v\<close> writes one
  cell of the rows with that index label.
\<close>

definition set_at :: "nat \<Rightarrow> string \<Rightarrow> cell \<Rightarrow> table \<Rightarrow> failure + table" where
  "set_at label name v t =
     (case col_pos name (columns t) of
        None \<Rightarrow> Inl KeyError
      | Some j \<Rightarrow>
          Inr (t\<lparr>rows := map (\<lambda>r. if fst r = label then (fst r, (snd r)[j := v]) else r) (rows t)\<rparr>))"

definition definition_column :: "string \<Rightarrow> bool" where
  "definition_column c = sublist ''definition'' (py_lower c)"

fun tick_rows ::
  "(string \<Rightarrow> string \<Rightarrow> bool) \<Rightarrow> cell \<Rightarrow> (nat \<times> row) list \<Rightarrow> table \<Rightarrow> failure + table" where
  "tick_rows ui original_parent [] display_group = Inr display_group"
| "tick_rows ui original_parent (ir # irs) display_group =
     (let i = fst ir; r = snd ir;
          key = str_of_cell original_parent @ ''_'' @ dec_nat i
      in (case set_at (fst r) ''Select'' (BoolV (ui (str_of_cell (snd r ! 0)) key)) display_group of
            Inl e \<Rightarrow> Inl e
          | Inr dg \<Rightarrow> tick_rows ui original_parent irs dg))"

definition display_group_of ::
  "(string \<Rightarrow> string \<Rightarrow> bool) \<Rightarrow> string \<Rightarrow> table \<Rightarrow> failure + table" where
  "display_group_of ui parent_col g =
     (let original_parent = snd (hd (rows g)) ! 0;
          cols_to_hide = parent_col # filter definition_column (map fst (columns g));
          display_group = drop_columns (cols_to_hide @ [''_group_key'']) g;
          display_group1 = set_column ''Select'' BoolT
                             (replicate (length (rows display_group)) (BoolV False)) display_group
      in tick_rows ui original_parent (enumerate (rows display_group1)) display_group1)"

fun collect_groups ::
  "(string \<Rightarrow> string \<Rightarrow> bool) \<Rightarrow> string \<Rightarrow> (cell \<times> table) list \<Rightarrow> failure + table list" where
  "collect_groups ui parent_col [] = Inr []"
| "collect_groups ui parent_col (g # gs) =
     (case display_group_of ui parent_col (snd g) of
        Inl e \<Rightarrow> Inl e
      | Inr dg \<Rightarrow>
          (case collect_groups ui parent_col gs of
             Inl e \<Rightarrow> Inl e
           | Inr dgs \<Rightarrow> Inr (dg # dgs)))"

text \<open>
  \<open>pd.concat(frames, ignore_index=True)\<close> of frames with the same columns: the rows one
  after the other, labelled anew.
\<close>

definition concat_ignore_index :: "table list \<Rightarrow> table" where
  "concat_ignore_index ts =
     (case ts of
        [] \<Rightarrow> empty_df
      | t # _ \<Rightarrow> \<lparr>columns = columns t,
                  rows = enumerate (concat (map (\<lambda>t. map snd (rows t)) ts))\<rparr>)"

text \<open>
  Lines 159 to 181: the table of the displayed rows with their \<open>Select\<close> flags, and
  \<open>filtered_df\<close> as these lines leave it (with the group key column).
\<close>

definition checkbox_section ::
  "pandas \<Rightarrow> (string \<Rightarrow> string \<Rightarrow> bool) \<Rightarrow> table \<Rightarrow> failure + (table \<times> table)" where
  "checkbox_section pv ui filtered_df =
     (if df_empty filtered_df then Inr (empty_df, filtered_df)
      else
        let parent_col = fst (hd (columns filtered_df));
            filtered_df1 = add_group_key pv filtered_df
        in (case parent_groups pv filtered_df of
              Inl e \<Rightarrow> Inl e
            | Inr grouped_remaining \<Rightarrow>
                (case collect_groups ui parent_col grouped_remaining of
                   Inl e \<Rightarrow> Inl e
                 | Inr editable_rows \<Rightarrow>
                     Inr (if editable_rows \<noteq> [] then concat_ignore_index editable_rows
                          else empty_df,
                          filtered_df1))))"

text \<open>Lines 185 to 188: the selected rows, without the \<open>Select\<close> column.\<close>

definition final_filtered_of :: "table \<Rightarrow> failure + table" where
  "final_filtered_of editable_table =
     (if \<not> df_empty editable_table then
        (case col_pos ''Select'' (columns editable_table) of
           None \<Rightarrow> Inl KeyError
         | Some j \<Rightarrow>
             (case drop_columns_strict [''Select'']
                     (mask_rows editable_table
                        (map (\<lambda>v. v = BoolV True) (col j editable_table))) of
                Inl e \<Rightarrow> Inl e
              | Inr t \<Rightarrow> Inr t))
      else Inr empty_df)"

text \<open>Lines 190 to 200: the two loops that stop at the first column other than the provenance column.\<close>

fun first_non_source :: "string list \<Rightarrow> string option" where
  "first_non_source [] = None"
| "first_non_source (c # cs) = (if c \<noteq> ''Source_File'' then Some c else first_non_source cs)"

definition column_to_export_of :: "table \<Rightarrow> table \<Rightarrow> string option" where
  "column_to_export_of final_filtered filtered_df =
     (if \<not> df_empty final_filtered then first_non_source (map fst (columns final_filtered))
      else if \<not> df_empty filtered_df then first_non_source (map fst (columns filtered_df))
      else None)"

text \<open>
  Lines 202 to 205. \<open>pd.DataFrame([values])\<close> is a frame of one row holding the values, and
  \<open>pd.DataFrame([[]])\<close> is one row without cells; the frame is given here by its rows.
  \<open>if column_to_export:\<close> is false for \<open>None\<close> and for an empty name.
\<close>

definition dropna :: "cell list \<Rightarrow> cell list" where
  "dropna xs = filter (\<lambda>v. v \<noteq> NaN) xs"

definition col_data_of :: "string option \<Rightarrow> table \<Rightarrow> failure + cell list list" where
  "col_data_of column_to_export final_filtered =
     (case column_to_export of
        None \<Rightarrow> Inr [[]]
      | Some c \<Rightarrow>
          if c = [] then Inr [[]]
          else if \<not> df_empty final_filtered then
            (case col_pos c (columns final_filtered) of
               None \<Rightarrow> Inl KeyError
             | Some j \<Rightarrow> Inr [dropna (col j final_filtered)])
          else Inr [[]])"

text \<open>
  Lines 207 to 222: \<open>to_excel(..., index=False, header=False)\<close> writes the rows of the
  frame and nothing else, and the link offers the file under a fixed name.
\<close>

record export =
  column_to_export :: "string option"
  sheet :: "cell list list"
  sheet_name :: string
  download :: string

definition export_section ::
  "pandas \<Rightarrow> (string \<Rightarrow> string \<Rightarrow> bool) \<Rightarrow> table \<Rightarrow> failure + export" where
  "export_section pv ui filtered_df =
     (case checkbox_section pv ui filtered_df of
        Inl e \<Rightarrow> Inl e
      | Inr (editable_table, filtered_df1) \<Rightarrow>
          (case final_filtered_of editable_table of
             Inl e \<Rightarrow> Inl e
           | Inr final_filtered \<Rightarrow>
               (let c = column_to_export_of final_filtered filtered_df1
                in (case col_data_of c final_filtered of
                      Inl e \<Rightarrow> Inl e
                    | Inr col_data \<Rightarrow>
                        Inr \<lparr>column_to_export = c, sheet = col_data,
                             sheet_name = ''SelectedColumn'',
                             download = ''new_meta_schema.xlsx''\<rparr>))))"

text \<open>The table \<open>final_filtered\<close> of a run, for the statements about the export.\<close>

definition selected_table ::
  "pandas \<Rightarrow> (string \<Rightarrow> string \<Rightarrow> bool) \<Rightarrow> table \<Rightarrow> failure + table" where
  "selected_table pv ui filtered_df =
     (case checkbox_section pv ui filtered_df of
        Inl e \<Rightarrow> Inl e
      | Inr et \<Rightarrow> final_filtered_of (fst et))"

section \<open>Notions used in the statements\<close>

text \<open>
  The characters that a first pass of \<open>normalize_text\<close> can leave behind: lower-case,
  no separator, no special character, and no whitespace other than the space.
\<close>

definition settled :: "char \<Rightarrow> bool" where
  "settled c = (lower_char c = c \<and> \<not> is_sep c \<and> \<not> is_special c \<and> (is_space c \<longrightarrow> c = CHR '' ''))"

text \<open>A row of the table once the group key has been written into it.\<close>

definition keyed_row :: "pandas \<Rightarrow> table \<Rightarrow> row \<Rightarrow> row" where
  "keyed_row pv df r =
     (case col_pos ''_group_key'' (columns df) of
        Some j \<Rightarrow> (fst r, (snd r)[j := group_key_of pv r])
      | None \<Rightarrow> (fst r, snd r @ [group_key_of pv r]))"

text \<open>The table \<open>df\<close> as a call of \<open>generate_parent_grouped_html\<close> leaves it.\<close>

definition df_after :: "pandas \<Rightarrow> table \<Rightarrow> string \<Rightarrow> failure + table" where
  "df_after pv df search_term = map_sum id snd (generate_parent_grouped_html pv df search_term)"

text \<open>
  The columns of the table in which the rows of a group are displayed with their
  checkboxes: the columns of the group without the parent column, the definition
  columns and the group key, and then the \<open>Select\<close> column.
\<close>

definition display_columns :: "string \<Rightarrow> (string \<times> dtype) list \<Rightarrow> (string \<times> dtype) list" where
  "display_columns parent_col cols =
     (let shown = filter (\<lambda>c. fst c \<notin> set (parent_col # filter definition_column (map fst cols)
                                              @ [''_group_key''])) cols
      in case col_pos ''Select'' shown of
           Some j \<Rightarrow> shown[j := (''Select'', BoolT)]
         | None \<Rightarrow> shown @ [(''Select'', BoolT)])"

text \<open>
  The sequence of values an export writes: the values of the export column in the
  selected rows, the missing ones left out, and nothing when no column is chosen.
\<close>

definition exported_sequence :: "string option \<Rightarrow> table \<Rightarrow> cell list" where
  "exported_sequence c final_filtered =
     (case c of
        None \<Rightarrow> []
      | Some n \<Rightarrow>
          if n = [] then []
          else (case col_pos n (columns final_filtered) of
                  None \<Rightarrow> []
                | Some j \<Rightarrow> dropna (col j final_filtered)))"

section \<open>Example tables\<close>

definition age_table :: table where
  "age_table =
     \<lparr>columns = [(''Concept'', ObjectT), (''Definition'', ObjectT)],
      rows = [(0, [StrV ''Age'', StrV ''years old'']),
              (1, [StrV ''AGE'', StrV ''Years_Old'']),
              (2, [StrV ''Height'', StrV ''cm''])]\<rparr>"

definition one_column_table :: table where
  "one_column_table =
     \<lparr>columns = [(''Source_File'', ObjectT)],
      rows = [(0, [StrV ''a.csv'']), (1, [StrV ''a.csv''])]\<rparr>"

definition bab_table :: table where
  "bab_table =
     \<lparr>columns = [(''Parent'', ObjectT), (''Concept'', ObjectT)],
      rows = [(0, [StrV ''B'', StrV ''x0'']), (1, [StrV ''A'', StrV ''x1'']),
              (2, [StrV ''B'', StrV ''x2'']), (3, [StrV ''C'', StrV ''x3''])]\<rparr>"

definition gk_table :: table where
  "gk_table =
     \<lparr>columns = [(''Concept'', ObjectT), (''_group_key'', ObjectT)],
      rows = [(0, [StrV ''Age'', StrV ''x''])]\<rparr>"

definition three_rows :: table where
  "three_rows =
     \<lparr>columns = [(''Parent'', ObjectT), (''Concept'', ObjectT), (''Definition'', ObjectT)],
      rows = [(0, [StrV ''Person'', StrV ''Age'', StrV ''years old'']),
              (1, [StrV ''Person'', StrV ''Height'', StrV ''cm'']),
              (2, [StrV ''Visit'', StrV ''Date'', NaN])]\<rparr>"

definition no_ticks :: "string \<Rightarrow> string \<Rightarrow> bool" where
  "no_ticks label key = False"

definition all_ticks :: "string \<Rightarrow> string \<Rightarrow> bool" where
  "all_ticks label key = True"

definition dot_table :: table where
  "dot_table =
     \<lparr>columns = [(''Concept'', ObjectT)],
      rows = [(0, [StrV ''abc'']), (1, [StrV ''a.c''])]\<rparr>"

definition mixed_table :: table where
  "mixed_table =
     \<lparr>columns = [(''Concept'', ObjectT), (''Code'', ObjectT)],
      rows = [(0, [StrV ''Age'', StrV ''12'']),
              (1, [StrV ''Height'', IntV 12])]\<rparr>"

definition orphan_table :: table where
  "orphan_table =
     \<lparr>columns = [(''Parent'', ObjectT), (''Concept'', ObjectT)],
      rows = [(0, [StrV ''P'', StrV ''x0'']), (1, [NaN, StrV ''x1'']),
              (2, [StrV ''p'', StrV ''x2''])]\<rparr>"

section \<open>Properties of text normalization\<close>

lemma lower_char_idem: "lower_char (lower_char c) = lower_char c"
proof (cases "is_upper c")
  case False then show ?thesis by (simp add: lower_char_def)
next
  case True
  have lt: "(of_char c :: nat) + 32 < 256" using True by (auto simp: is_upper_def Let_def)
  have "\<not> is_upper (char_of ((of_char c :: nat) + 32))"
    using True lt by (auto simp: is_upper_def Let_def)
  then show ?thesis using True by (simp add: lower_char_def)
qed

lemma space_facts: "is_space CHR '' ''" "\<not> is_sep CHR '' ''" "\<not> is_special CHR '' ''"
  "lower_char CHR '' '' = CHR '' ''"
  by (simp_all add: is_space_def is_sep_def is_special_def lower_char_def is_upper_def)

lemma set_sub_class_plus:
  "set (sub_class_plus P repl s) \<subseteq> {c \<in> set s. \<not> P c} \<union> set repl"
proof (induction P repl s rule: sub_class_plus.induct)
  case (1 P repl) then show ?case by simp
next
  case (2 P repl c cs)
  show ?case
  proof (cases "P c")
    case True
    have "set (dropWhile P cs) \<subseteq> set cs" by (rule set_dropWhileD[THEN subsetI]) 
    then show ?thesis using True 2(1) by auto
  next
    case False then show ?thesis using 2(2) by auto
  qed
qed

lemma set_sub_class_del: "set (sub_class P [] s) = {c \<in> set s. \<not> P c}"
  by (induction s) (auto simp: sub_class_def)

lemma sub_class_del_id: "\<forall>c\<in>set s. \<not> P c \<Longrightarrow> sub_class P [] s = s"
  by (induction s) (auto simp: sub_class_def)

lemma sub_class_plus_id: "\<forall>c\<in>set s. \<not> P c \<Longrightarrow> sub_class_plus P repl s = s"
  by (induction s) auto

lemma set_py_strip: "set (py_strip s) \<subseteq> set s"
proof -
  have "set (py_rstrip t) \<subseteq> set t" for t
    using set_dropWhileD[of _ is_space "rev t"] by (auto simp: py_rstrip_def)
  moreover have "set (py_lstrip s) \<subseteq> set s"
    using set_dropWhileD[of _ is_space s] by (auto simp: py_lstrip_def)
  ultimately show ?thesis unfolding py_strip_def by blast
qed

lemma settled_normalize_str: "c \<in> set (normalize_str s) \<Longrightarrow> settled c"
proof -
  assume a: "c \<in> set (normalize_str s)"
  let ?t1 = "py_strip (py_lower s)"
  let ?t2 = "sub_class_plus is_sep '' '' ?t1"
  let ?t3 = "sub_class_plus is_space '' '' ?t2"
  have c3: "c \<in> set ?t3" and ns: "\<not> is_special c"
    using a by (simp_all add: normalize_str_def set_sub_class_del)
  have c3': "c = CHR '' '' \<or> (c \<in> set ?t2 \<and> \<not> is_space c)"
    using c3 set_sub_class_plus[of is_space "'' ''" ?t2] by auto
  show ?thesis
  proof (cases "c = CHR '' ''")
    case True then show ?thesis by (simp add: settled_def space_facts)
  next
    case False
    then have c2: "c \<in> set ?t2" and nsp: "\<not> is_space c" using c3' by auto
    have c1: "c \<in> set ?t1" and nsep: "\<not> is_sep c"
      using c2 False set_sub_class_plus[of is_sep "'' ''" ?t1] by auto
    have "c \<in> set (py_lower s)" using c1 set_py_strip by blast
    then have "lower_char c = c" by (auto simp: py_lower_def lower_char_idem)
    then show ?thesis using ns nsp nsep by (simp add: settled_def)
  qed
qed

lemma normalize_str_settled:
  assumes "\<forall>c\<in>set t. settled c"
  shows "normalize_str t = sub_class_plus is_space '' '' (py_strip t)"
proof -
  have l: "py_lower t = t" using assms by (simp add: py_lower_def settled_def map_idI)
  have s1: "\<forall>c\<in>set (py_strip t). settled c" using assms set_py_strip by blast
  then have sep: "sub_class_plus is_sep '' '' (py_strip t) = py_strip t"
    by (intro sub_class_plus_id) (simp add: settled_def)
  have "\<forall>c\<in>set (sub_class_plus is_space '' '' (py_strip t)). \<not> is_special c"
    using s1 set_sub_class_plus[of is_space "'' ''" "py_strip t"]
    by (auto simp: settled_def space_facts)
  then have "sub_class is_special [] (sub_class_plus is_space '' '' (py_strip t))
           = sub_class_plus is_space '' '' (py_strip t)"
    by (rule sub_class_del_id)
  then show ?thesis by (simp add: normalize_str_def l sep)
qed

lemma sub_class_plus_hd:
  "s \<noteq> [] \<Longrightarrow> \<not> P (hd s) \<Longrightarrow> sub_class_plus P repl s \<noteq> [] \<and> hd (sub_class_plus P repl s) = hd s"
  by (cases s) auto

lemma dropWhile_hd_id: "s = [] \<or> \<not> P (hd s) \<Longrightarrow> dropWhile P s = s"
  by (cases s) auto

lemma dropWhile_hd: "dropWhile P s = [] \<or> \<not> P (hd (dropWhile P s))"
  using hd_dropWhile[of P s] by blast

lemma sub_class_plus_idem:
  "P CHR '' '' \<Longrightarrow> sub_class_plus P '' '' (sub_class_plus P '' '' s) = sub_class_plus P '' '' s"
proof (induction P "'' ''" s rule: sub_class_plus.induct)
  case (1 P) then show ?case by simp
next
  case (2 P c cs)
  show ?case
  proof (cases "P c")
    case False then show ?thesis using 2 by simp
  next
    case True
    let ?d = "dropWhile P cs"
    let ?R = "sub_class_plus P '' '' ?d"
    have "?R = [] \<or> \<not> P (hd ?R)"
    proof (cases "?d = []")
      case True
      have "sub_class_plus P '' '' [] = []" by simp
      then show ?thesis unfolding True by simp
    next
      case False
      then have "\<not> P (hd ?d)" using dropWhile_hd[of P cs] by blast
      then show ?thesis using False sub_class_plus_hd[of ?d P "'' ''"] by simp
    qed
    then have "dropWhile P ?R = ?R" by (rule dropWhile_hd_id)
    then show ?thesis using True 2(1)[OF True] 2(3) by simp
  qed
qed

lemma sub_class_plus_last:
  "s \<noteq> [] \<Longrightarrow> \<not> P (last s) \<Longrightarrow>
     sub_class_plus P repl s \<noteq> [] \<and> last (sub_class_plus P repl s) = last s"
proof (induction P repl s rule: sub_class_plus.induct)
  case (1 P repl) then show ?case by simp
next
  case (2 P repl c cs)
  show ?case
  proof (cases "P c")
    case False
    then show ?thesis using 2(2)[OF False] 2(3,4) by (cases cs) (auto split: if_splits)
  next
    case True
    let ?d = "dropWhile P cs"
    have cs: "cs \<noteq> []" using True 2(4) by (cases cs) auto
    have lastP: "\<not> P (last cs)" using 2(4) cs by simp
    have dne: "?d \<noteq> []" using cs lastP by (metis dropWhile_eq_Nil_conv last_in_set)
    have "last ?d = last cs" using dne by (metis last_appendR takeWhile_dropWhile_id)
    then have "sub_class_plus P repl ?d \<noteq> [] \<and> last (sub_class_plus P repl ?d) = last cs"
      using 2(1)[OF True dne] lastP by simp
    then show ?thesis using True cs by simp
  qed
qed

lemma py_strip_id: "s = [] \<or> (\<not> is_space (hd s) \<and> \<not> is_space (last s)) \<Longrightarrow> py_strip s = s"
proof (cases "s = []")
  case True then show ?thesis by (simp add: py_strip_def py_lstrip_def py_rstrip_def)
next
  case False
  assume "s = [] \<or> (\<not> is_space (hd s) \<and> \<not> is_space (last s))"
  then have h: "\<not> is_space (hd s)" and l: "\<not> is_space (last s)" using False by auto
  have "dropWhile is_space s = s" using h by (intro dropWhile_hd_id) simp
  moreover have "dropWhile is_space (rev s) = rev s"
    using l False by (intro dropWhile_hd_id) (simp add: hd_rev)
  ultimately show ?thesis by (simp add: py_strip_def py_lstrip_def py_rstrip_def)
qed

lemma py_strip_ends:
  "py_strip s = [] \<or> (\<not> is_space (hd (py_strip s)) \<and> \<not> is_space (last (py_strip s)))"
proof (cases "py_strip s = []")
  case True then show ?thesis by simp
next
  case False
  let ?l = "dropWhile is_space s"
  let ?r = "dropWhile is_space (rev ?l)"
  have eq: "py_strip s = rev ?r" by (simp add: py_strip_def py_lstrip_def py_rstrip_def)
  have rne: "?r \<noteq> []" using False eq by simp
  have lne: "?l \<noteq> []"
  proof
    assume e: "?l = []"
    have "?r = []" unfolding e by simp
    then show False using rne by simp
  qed
  have "\<not> is_space (hd ?r)" using rne hd_dropWhile by blast
  then have last: "\<not> is_space (last (py_strip s))" using eq rne by (simp add: last_rev)
  have hl: "\<not> is_space (hd ?l)" using lne hd_dropWhile by blast
  have "\<not> is_space (last (rev ?l))" using hl lne by (simp add: last_rev)
  then have "last ?r = last (rev ?l)" using rne
    by (metis last_appendR takeWhile_dropWhile_id)
  then have "hd (rev ?r) = hd ?l" using rne lne by (simp add: hd_rev last_rev)
  then show ?thesis using hl last eq by simp
qed

lemma normalize_str_twice:
  "normalize_str (normalize_str s) = sub_class_plus is_space '' '' (py_strip (normalize_str s))"
  by (rule normalize_str_settled) (simp add: settled_normalize_str)

lemma normalize_str_stable:
  "normalize_str (normalize_str (normalize_str s)) = normalize_str (normalize_str s)"
proof -
  let ?t = "normalize_str s"
  let ?y = "py_strip ?t"
  let ?u = "sub_class_plus is_space '' '' ?y"
  have u: "normalize_str ?t = ?u" by (rule normalize_str_twice)
  have "\<forall>c\<in>set ?y. settled c" using settled_normalize_str set_py_strip by blast
  then have su: "\<forall>c\<in>set ?u. settled c"
    using set_sub_class_plus[of is_space "'' ''" ?y] by (auto simp: settled_def space_facts)
  have ends: "?u = [] \<or> (\<not> is_space (hd ?u) \<and> \<not> is_space (last ?u))"
  proof (cases "?y = []")
    case True then show ?thesis by simp
  next
    case False
    then have "\<not> is_space (hd ?y)" "\<not> is_space (last ?y)" using py_strip_ends[of ?t] by auto
    then show ?thesis
      using False sub_class_plus_hd[of ?y is_space "'' ''"] sub_class_plus_last[of ?y is_space "'' ''"]
      by simp
  qed
  have "normalize_str ?u = sub_class_plus is_space '' '' (py_strip ?u)"
    using su by (rule normalize_str_settled)
  also have "\<dots> = sub_class_plus is_space '' '' ?u" using ends by (simp add: py_strip_id)
  also have "\<dots> = ?u" by (rule sub_class_plus_idem) (simp add: space_facts)
  finally show ?thesis using u by simp
qed

text \<open>The example of the specification.\<close>

lemma normalize_example: "normalize_text (StrV '' Sensor_ID (Raw) '') = StrV ''sensor id (raw)''"
  by code_simp

section \<open>Properties of deduplication\<close>









lemma rows_fold_normalize:
  "rows (fold (normalize_column pv) js t) =
     map (\<lambda>r. (fst r, fold (\<lambda>j cs. cs[j := normalize_text (astype_cell pv (cs ! j))]) js (snd r))) (rows t)"
  by (induction js arbitrary: t) (simp_all add: normalize_column_def comp_def)

lemma length_columns_fold_normalize:
  "length (columns (fold (normalize_column pv) js t)) = length (columns t)"
  by (induction js arbitrary: t) (simp_all add: normalize_column_def)

lemma fold_update_nth:
  "distinct js \<Longrightarrow> k < length cs \<Longrightarrow>
   fold (\<lambda>j cs. cs[j := f (cs ! j)]) js cs ! k = (if k \<in> set js then f (cs ! k) else cs ! k)"
proof (induction js arbitrary: cs)
  case Nil then show ?case by simp
next
  case (Cons j js)
  have "fold (\<lambda>j cs. cs[j := f (cs ! j)]) js (cs[j := f (cs ! j)]) ! k
        = (if k \<in> set js then f (cs[j := f (cs ! j)] ! k) else cs[j := f (cs ! j)] ! k)"
    using Cons.IH[of "cs[j := f (cs ! j)]"] Cons.prems by simp
  then show ?case using Cons.prems by (cases "k = j") (auto simp: nth_list_update)
qed

lemma ncols_normalized_df: "ncols (normalized_df pv t) = ncols t"
  by (simp add: ncols_def normalized_df_def length_columns_fold_normalize)


lemma dedup_keys_eq:
  assumes "rectangular t" "2 \<le> ncols t"
  shows "dedup_keys pv t =
           map (\<lambda>r. if snd (columns t ! 1) = ObjectT
                    then normalize_text (astype_cell pv (snd r ! 1)) else snd r ! 1) (rows t)"
proof -
  have d: "distinct (select_dtypes_object t)" by (simp add: select_dtypes_object_def)
  have m: "(1 \<in> set (select_dtypes_object t)) = (snd (columns t ! 1) = ObjectT)"
    using assms(2) by (auto simp: select_dtypes_object_def ncols_def)
  have len: "\<And>r. r \<in> set (rows t) \<Longrightarrow> 1 < length (snd r)"
    using assms by (auto simp: rectangular_def ncols_def list_all_iff)
  have cellwise: "fold (\<lambda>j cs. cs[j := normalize_text (astype_cell pv (cs ! j))])
                     (select_dtypes_object t) (snd r) ! 1
                 = (if snd (columns t ! 1) = ObjectT
                    then normalize_text (astype_cell pv (snd r ! 1)) else snd r ! 1)"
    if "r \<in> set (rows t)" for r
    using fold_update_nth[OF d len[OF that], where f = "\<lambda>c. normalize_text (astype_cell pv c)"] m
    by simp
  have "dedup_keys pv t =
          map (\<lambda>r. fold (\<lambda>j cs. cs[j := normalize_text (astype_cell pv (cs ! j))])
                     (select_dtypes_object t) (snd r) ! 1) (rows t)"
    by (simp add: dedup_keys_def col_def normalized_df_def rows_fold_normalize comp_def)
  also have "\<dots> = map (\<lambda>r. if snd (columns t ! 1) = ObjectT
                    then normalize_text (astype_cell pv (snd r ! 1)) else snd r ! 1) (rows t)"
    by (rule map_cong[OF refl]) (rule cellwise)
  finally show ?thesis .
qed

lemma normalize_astype_missing: "normalize_text (astype_cell pv NaN) = astype_cell pv NaN"
proof (cases pv)
  case Before3
  have "normalize_str ''nan'' = ''nan''" by code_simp
  then show ?thesis using Before3 by simp
next
  case From3 then show ?thesis by simp
qed

lemma astype_cell_present: "c \<noteq> NaN \<Longrightarrow> astype_cell pv c = StrV (str_of_cell c)"
  by (cases c) simp_all



lemma age_table_dedup:
  "rows (kept (deduplicate From3 age_table)) = [(0, [StrV ''Age'', StrV ''years old'']), (2, [StrV ''Height'', StrV ''cm''])]"
  by code_simp

text \<open>
  Claim C9. For a table with exactly one column deduplication is skipped: the kept table
  is the input, the removed table is the empty frame, and the result carries the warning
  instead of an error.
\<close>

theorem deduplicate_one_column:
  assumes "ncols t = 1"
  shows "kept (deduplicate pv t) = t \<and> removed (deduplicate pv t) = empty_df
       \<and> rows (removed (deduplicate pv t)) = []
       \<and> warnings (deduplicate pv t)
           = [''Dataset has only one column; skipping second-column deduplication.'']"
  using assms by (simp add: deduplicate_def ncols_normalized_df empty_df_def)

theorem deduplicate_one_column_witness:
  "ncols one_column_table = 1
   \<and> kept (deduplicate From3 one_column_table) = one_column_table
   \<and> removed (deduplicate From3 one_column_table) = empty_df
   \<and> rows (removed (deduplicate From3 one_column_table)) = []
   \<and> warnings (deduplicate From3 one_column_table)
       = [''Dataset has only one column; skipping second-column deduplication.'']"
proof -
  have h: "ncols one_column_table = 1" by (simp add: one_column_table_def ncols_def)
  show ?thesis using h deduplicate_one_column[OF h, where pv = From3] by blast
qed

text \<open>
  Claim C8, as stated, fails: in a textual key column the number 12 is no string, and is
  unequal to the text \<open>12\<close> of the row before, yet its row is removed as a duplicate of
  that row, since the number is compared by its string form. This is so on either pandas.
\<close>

theorem dedup_raw_equality_counterexample:
  "col 1 mixed_table = [StrV ''12'', IntV 12] \<and> StrV ''12'' \<noteq> IntV 12
   \<and> rows (removed (deduplicate Before3 mixed_table)) = [(1, [StrV ''Height'', IntV 12])]
   \<and> rows (removed (deduplicate From3 mixed_table)) = [(1, [StrV ''Height'', IntV 12])]"
  by code_simp

text \<open>
  Claim C8, amended. \<open>normalize_text\<close> returns a value that is no string unchanged. The
  key that duplicate detection compares is the raw cell only where the second column is
  not textual; in a textual column every cell that is not missing, string or not, is first
  turned into its string form and that string is normalized, and a missing cell gives
  whatever \<open>astype(str)\<close> of the pandas in use makes of it.
\<close>

theorem non_string_cells:
  assumes "rectangular t" and "2 \<le> ncols t"
  shows "normalize_text (IntV i) = IntV i \<and> normalize_text (BoolV b) = BoolV b
       \<and> normalize_text NaN = NaN
       \<and> dedup_keys pv t =
           map (\<lambda>r. if snd (columns t ! 1) = ObjectT
                    then (if snd r ! 1 = NaN then astype_cell pv NaN
                          else StrV (normalize_str (str_of_cell (snd r ! 1))))
                    else snd r ! 1) (rows t)"
proof -
  have "normalize_text (astype_cell pv c)
          = (if c = NaN then astype_cell pv NaN else StrV (normalize_str (str_of_cell c)))" for c
  proof (cases "c = NaN")
    case True then show ?thesis by (simp only: normalize_astype_missing refl if_True)
  next
    case False then show ?thesis by (simp add: astype_cell_present)
  qed
  then show ?thesis using dedup_keys_eq[OF assms, of pv] by simp
qed

theorem non_string_cells_witness:
  "rectangular mixed_table \<and> 2 \<le> ncols mixed_table
   \<and> normalize_text (IntV 7) = IntV 7 \<and> normalize_text (BoolV True) = BoolV True
   \<and> normalize_text NaN = NaN
   \<and> dedup_keys From3 mixed_table =
       map (\<lambda>r. if snd (columns mixed_table ! 1) = ObjectT
                then (if snd r ! 1 = NaN then astype_cell From3 NaN
                      else StrV (normalize_str (str_of_cell (snd r ! 1))))
                else snd r ! 1) (rows mixed_table)"
proof -
  have h1: "rectangular mixed_table" by (simp add: mixed_table_def rectangular_def)
  have h2: "2 \<le> ncols mixed_table" by (simp add: mixed_table_def ncols_def)
  show ?thesis using h1 h2 non_string_cells[OF h1 h2, of 7 True From3] by blast
qed

text \<open>
  Claim C3, as stated, fails: the separator at the end of \<open>a_\<close> becomes a space after
  the trimming is done, so the first pass gives \<open>a\<close> followed by a space, and the second
  pass trims that space.
\<close>

theorem normalize_idempotent_counterexample:
  "normalize_text (normalize_text (StrV ''a_'')) \<noteq> normalize_text (StrV ''a_'')"
  by code_simp

text \<open>
  Claim C3, amended. A second application of \<open>normalize_text\<close> does nothing but trim
  the result of the first and collapse its runs of spaces, and from the second application
  on the result no longer changes.
\<close>

theorem normalize_stable_after_two:
  "normalize_text (normalize_text (normalize_text v)) = normalize_text (normalize_text v)
   \<and> normalize_str (normalize_str s)
       = sub_class_plus is_space '' '' (py_strip (normalize_str s))"
proof -
  have "normalize_text (normalize_text (normalize_text v)) = normalize_text (normalize_text v)"
    by (cases v) (simp_all add: normalize_str_stable)
  then show ?thesis using normalize_str_twice by simp
qed

theorem normalize_stable_after_two_witness:
  "normalize_text (normalize_text (normalize_text (StrV ''a_'')))
     = normalize_text (normalize_text (StrV ''a_''))
   \<and> normalize_str (normalize_str ''a ! b'')
       = sub_class_plus is_space '' '' (py_strip (normalize_str ''a ! b''))"
  using normalize_stable_after_two[of "StrV ''a_''" "''a ! b''"] by blast

section \<open>Properties of grouping and of the preview\<close>

lemma col_pos_None: "(col_pos n cs = None) = (n \<notin> set (map fst cs))"
  by (induction cs) auto

lemma col_pos_Some: "col_pos n cs = Some j \<Longrightarrow> j < length cs \<and> fst (cs ! j) = n"
proof (induction cs arbitrary: j)
  case Nil then show ?case by simp
next
  case (Cons c cs)
  then show ?case by (cases "fst c = n") (auto split: if_splits)
qed

lemma col_pos_append: "col_pos n cs = None \<Longrightarrow> col_pos n (cs @ [(n, dt)]) = Some (length cs)"
  by (induction cs) (auto split: if_splits)

lemma col_pos_update: "col_pos n cs = Some j \<Longrightarrow> col_pos n (cs[j := (n, dt)]) = Some j"
proof (induction cs arbitrary: j)
  case Nil then show ?case by simp
next
  case (Cons c cs)
  show ?case
  proof (cases "fst c = n")
    case True then show ?thesis using Cons.prems by simp
  next
    case False
    then obtain j' where j': "col_pos n cs = Some j'" "j = Suc j'" using Cons.prems by auto
    then show ?thesis using False Cons.IH[OF j'(1)] by simp
  qed
qed

lemma col_pos_set_column:
  "\<exists>j. col_pos name (columns (set_column name dt vals t)) = Some j"
  by (cases "col_pos name (columns t)")
     (simp_all add: set_column_def col_pos_append col_pos_update)

lemma map2_same: "map2 f xs (map h xs) = map (\<lambda>x. f x (h x)) xs"
  by (induction xs) auto

lemma first_seen_cong: "set s = set s' \<Longrightarrow> first_seen s ks = first_seen s' ks"
proof (induction ks arbitrary: s s')
  case Nil then show ?case by simp
next
  case (Cons k ks)
  have "first_seen (k # s) ks = first_seen (k # s') ks"
    by (rule Cons.IH) (simp add: Cons.prems)
  moreover have "first_seen s ks = first_seen s' ks" by (rule Cons.IH) (rule Cons.prems)
  ultimately show ?case using Cons.prems by simp
qed

lemma first_seen_props:
  "distinct (first_seen s ks) \<and> set (first_seen s ks) = set ks - set s"
proof (induction ks arbitrary: s)
  case Nil then show ?case by simp
next
  case (Cons k ks)
  show ?case using Cons.IH[of s] Cons.IH[of "k # s"] by auto
qed

lemma keys_insert_group:
  "map fst (insert_group k r gs) = (if k \<in> set (map fst gs) then map fst gs else map fst gs @ [k])"
  by (induction gs) auto

lemma map_of_insert_group:
  "map_of (insert_group k r gs)
     = (map_of gs)(k \<mapsto> (case map_of gs k of None \<Rightarrow> [r] | Some rs \<Rightarrow> rs @ [r]))"
  by (induction gs) (auto simp: fun_eq_iff)

lemma keys_fold_groups:
  "map fst (fold (group_step key) rs gs)
     = map fst gs @ first_seen (map fst gs) (filter (\<lambda>k. k \<noteq> NaN) (map key rs))"
proof (induction rs arbitrary: gs)
  case Nil then show ?case by simp
next
  case (Cons r rs)
  show ?case
  proof (cases "key r = NaN")
    case True then show ?thesis using Cons.IH[of gs] by (simp add: group_step_def)
  next
    case False
    let ?gs' = "insert_group (key r) r gs"
    have step: "fold (group_step key) (r # rs) gs = fold (group_step key) rs ?gs'"
      using False by (simp add: group_step_def)
    show ?thesis
    proof (cases "key r \<in> set (map fst gs)")
      case True
      then have "map fst ?gs' = map fst gs" by (simp add: keys_insert_group)
      then show ?thesis using Cons.IH[of ?gs'] step True False by simp
    next
      case notin: False
      then have k: "map fst ?gs' = map fst gs @ [key r]" by (simp add: keys_insert_group)
      have "first_seen (map fst gs @ [key r]) ks = first_seen (key r # map fst gs) ks" for ks
        by (rule first_seen_cong) auto
      then show ?thesis using Cons.IH[of ?gs'] step notin False k by simp
    qed
  qed
qed

lemma map_of_fold_groups:
  "k \<noteq> NaN \<Longrightarrow>
   map_of (fold (group_step key) rs gs) k
     = (case map_of gs k of
          None \<Rightarrow> (if filter (\<lambda>r. key r = k) rs = [] then None
                    else Some (filter (\<lambda>r. key r = k) rs))
        | Some rs0 \<Rightarrow> Some (rs0 @ filter (\<lambda>r. key r = k) rs))"
proof (induction rs arbitrary: gs)
  case Nil then show ?case by (simp split: option.splits)
next
  case (Cons r rs)
  show ?case
  proof (cases "key r = NaN")
    case True
    then show ?thesis using Cons.IH[OF Cons.prems, of gs] Cons.prems
      by (auto simp: group_step_def split: option.splits)
  next
    case False
    let ?gs' = "insert_group (key r) r gs"
    have step: "fold (group_step key) (r # rs) gs = fold (group_step key) rs ?gs'"
      using False by (simp add: group_step_def)
    show ?thesis unfolding step Cons.IH[OF Cons.prems, of ?gs'] map_of_insert_group
      by (auto split: option.splits)
  qed
qed

lemma groupby_rows_keys:
  "map fst (groupby_rows key rs) = first_seen [] (filter (\<lambda>k. k \<noteq> NaN) (map key rs))"
  using keys_fold_groups[of key rs "[]"] by (simp add: groupby_rows_def)

lemma groupby_rows_group:
  assumes "g \<in> set (groupby_rows key rs)"
  shows "fst g \<noteq> NaN \<and> snd g = filter (\<lambda>r. key r = fst g) rs \<and> snd g \<noteq> []"
proof -
  have keys: "map fst (groupby_rows key rs) = first_seen [] (filter (\<lambda>k. k \<noteq> NaN) (map key rs))"
    by (rule groupby_rows_keys)
  have d: "distinct (map fst (groupby_rows key rs))"
    unfolding keys using first_seen_props by blast
  have "fst g \<in> set (map fst (groupby_rows key rs))" using assms by simp
  then have nn: "fst g \<noteq> NaN" unfolding keys using first_seen_props[of "[]"] by auto
  have "map_of (groupby_rows key rs) (fst g) = Some (snd g)"
    using d assms by (cases g) (simp add: map_of_is_SomeI)
  moreover have "map_of (groupby_rows key rs) (fst g)
      = (if filter (\<lambda>r. key r = fst g) rs = [] then None
         else Some (filter (\<lambda>r. key r = fst g) rs))"
    using map_of_fold_groups[OF nn, of key rs "[]"] by (simp add: groupby_rows_def)
  ultimately show ?thesis using nn by (auto split: if_splits)
qed

lemma group_keys_col: "str_lower (astype_str pv (col 0 df)) = map (group_key_of pv) (rows df)"
  by (simp add: str_lower_def astype_str_def col_def group_key_of_def)

lemma rows_add_group_key: "rows (add_group_key pv df) = map (keyed_row pv df) (rows df)"
  by (cases "col_pos ''_group_key'' (columns df)")
     (simp_all add: add_group_key_def set_column_def group_keys_col map2_same keyed_row_def)

lemma key_of_keyed_row:
  assumes "rectangular df" "r \<in> set (rows df)"
    and "col_pos ''_group_key'' (columns (add_group_key pv df)) = Some j"
  shows "snd (keyed_row pv df r) ! j = group_key_of pv r"
proof -
  have len: "length (snd r) = length (columns df)"
    using assms(1,2) by (auto simp: rectangular_def list_all_iff)
  show ?thesis
  proof (cases "col_pos ''_group_key'' (columns df)")
    case None
    then have "j = length (columns df)"
      using assms(3) by (simp add: add_group_key_def set_column_def col_pos_append)
    then show ?thesis using None len[symmetric] by (simp add: keyed_row_def)
  next
    case (Some i)
    then have "j = i" using assms(3) by (simp add: add_group_key_def set_column_def col_pos_update)
    moreover have "i < length (snd r)" using col_pos_Some[OF Some] len by simp
    ultimately show ?thesis using Some by (simp add: keyed_row_def)
  qed
qed

lemma fst_keyed_row: "fst (keyed_row pv df r) = fst r"
  by (simp add: keyed_row_def split: option.splits)

lemma parent_groups_eq:
  "\<exists>j. col_pos ''_group_key'' (columns (add_group_key pv df)) = Some j
      \<and> parent_groups pv df
          = Inr (map (\<lambda>g. (fst g, (add_group_key pv df)\<lparr>rows := snd g\<rparr>))
                     (groupby_rows (\<lambda>r. snd r ! j) (rows (add_group_key pv df))))"
proof -
  obtain j where j: "col_pos ''_group_key'' (columns (add_group_key pv df)) = Some j"
    using col_pos_set_column unfolding add_group_key_def by blast
  then show ?thesis by (simp add: parent_groups_def groupby_def)
qed

lemma generate_eq:
  assumes "columns df \<noteq> []" and "parent_groups pv df = Inr gs"
  shows "generate_parent_grouped_html pv df search_term
           = Inr (table_head df
                    @ concat (map (\<lambda>g. group_html search_term [1 ..< length (columns df)] (snd g)) gs)
                    @ ''</table>'',
                  drop_columns [''_group_key''] (add_group_key pv df))"
proof -
  obtain p ch where pc: "columns df = p # ch" using assms(1) by (cases "columns df") auto
  obtain j where j: "col_pos ''_group_key'' (columns (add_group_key pv df)) = Some j"
    using parent_groups_eq by blast
  have "''_group_key'' \<in> set (map fst (columns (add_group_key pv df)))"
    using j col_pos_None[of "''_group_key''" "columns (add_group_key pv df)"] by simp
  then have d: "drop_columns_strict [''_group_key''] (add_group_key pv df)
           = Inr (drop_columns [''_group_key''] (add_group_key pv df))"
    by (simp add: drop_columns_strict_def)
  have len: "length (columns df) = Suc (length ch)" using pc by simp
  show ?thesis
    unfolding generate_parent_grouped_html_def
    using assms(2) d pc by (simp add: Let_def)
qed

lemma generate_no_columns:
  "columns df = [] \<Longrightarrow> generate_parent_grouped_html pv df search_term = Inl IndexError"
  by (simp add: generate_parent_grouped_html_def)

text \<open>
  Claim C6. For a table with a first (parent) column, the preview is the table head
  followed by the markup of the groups in their order, and the groups come in the order
  in which their keys (the lower-cased string form of the parent cell) are first met when
  the rows are scanned from top to bottom; each group holds the rows of its key in their
  original order. A row whose parent cell stays missing has no key and is in no group. For
  parent values B, A, B, C the groups are B, A, C, and the B group holds rows 0 and 2.
\<close>

theorem groups_in_first_occurrence_order:
  assumes "rectangular df" and "columns df \<noteq> []"
  shows "\<exists>gs df'. parent_groups pv df = Inr gs
           \<and> generate_parent_grouped_html pv df search_term
               = Inr (table_head df
                        @ concat (map (\<lambda>g. group_html search_term [1 ..< length (columns df)] (snd g)) gs)
                        @ ''</table>'', df')
           \<and> map fst gs
               = first_seen [] (filter (\<lambda>k. k \<noteq> NaN) (map (group_key_of pv) (rows df)))
           \<and> (\<forall>g\<in>set gs. rows (snd g)
                 = map (keyed_row pv df) (filter (\<lambda>r. group_key_of pv r = fst g) (rows df)))
           \<and> (\<forall>g\<in>set gs. map fst (rows (snd g))
                 = map fst (filter (\<lambda>r. group_key_of pv r = fst g) (rows df)))"
proof -
  let ?df1 = "add_group_key pv df"
  obtain j where j: "col_pos ''_group_key'' (columns ?df1) = Some j"
    and pg0: "parent_groups pv df
          = Inr (map (\<lambda>g. (fst g, ?df1\<lparr>rows := snd g\<rparr>))
                     (groupby_rows (\<lambda>r. snd r ! j) (rows ?df1)))"
    using parent_groups_eq by blast
  let ?key = "\<lambda>r. snd r ! j"
  let ?grs = "groupby_rows ?key (rows ?df1)"
  let ?gs = "map (\<lambda>g. (fst g, ?df1\<lparr>rows := snd g\<rparr>)) ?grs"
  have pg: "parent_groups pv df = Inr ?gs" by (rule pg0)
  have keyeq: "?key (keyed_row pv df r) = group_key_of pv r" if "r \<in> set (rows df)" for r
    using key_of_keyed_row[OF assms(1) that j] .
  have keys1: "map ?key (rows ?df1) = map (group_key_of pv) (rows df)"
    unfolding rows_add_group_key using keyeq by (simp add: comp_def)
  have order: "map fst ?gs
      = first_seen [] (filter (\<lambda>k. k \<noteq> NaN) (map (group_key_of pv) (rows df)))"
    using groupby_rows_keys[of ?key "rows ?df1"] keys1 by (simp add: comp_def)
  have members: "rows (snd g)
      = map (keyed_row pv df) (filter (\<lambda>r. group_key_of pv r = fst g) (rows df))"
    if "g \<in> set ?gs" for g
  proof -
    from that have "g \<in> (\<lambda>g. (fst g, ?df1\<lparr>rows := snd g\<rparr>)) ` set ?grs" by simp
    then obtain g0 where g0: "g0 \<in> set ?grs" "g = (fst g0, ?df1\<lparr>rows := snd g0\<rparr>)"
      by (rule imageE)
    have "snd g0 = filter (\<lambda>r. ?key r = fst g0) (rows ?df1)"
      using groupby_rows_group[OF g0(1)] by simp
    also have "\<dots> = map (keyed_row pv df)
                       (filter (\<lambda>r. ?key (keyed_row pv df r) = fst g0) (rows df))"
      unfolding rows_add_group_key by (simp add: filter_map comp_def)
    also have "filter (\<lambda>r. ?key (keyed_row pv df r) = fst g0) (rows df)
             = filter (\<lambda>r. group_key_of pv r = fst g0) (rows df)"
      by (rule filter_cong[OF refl]) (simp add: keyeq)
    finally show ?thesis using g0(2) by simp
  qed
  have labels: "map fst (rows (snd g))
      = map fst (filter (\<lambda>r. group_key_of pv r = fst g) (rows df))"
    if "g \<in> set ?gs" for g
    unfolding members[OF that] by (simp add: comp_def fst_keyed_row)
  have html: "generate_parent_grouped_html pv df search_term
           = Inr (table_head df
                    @ concat (map (\<lambda>g. group_html search_term [1 ..< length (columns df)] (snd g)) ?gs)
                    @ ''</table>'',
                  drop_columns [''_group_key''] ?df1)"
    by (rule generate_eq[OF assms(2) pg])
  show ?thesis using pg html order members labels by blast
qed

lemma bab_groups:
  "parent_groups From3 bab_table =
     Inr [(StrV ''b'', \<lparr>columns = [(''Parent'', ObjectT), (''Concept'', ObjectT), (''_group_key'', ObjectT)],
                        rows = [(0, [StrV ''B'', StrV ''x0'', StrV ''b'']),
                                (2, [StrV ''B'', StrV ''x2'', StrV ''b''])]\<rparr>),
          (StrV ''a'', \<lparr>columns = [(''Parent'', ObjectT), (''Concept'', ObjectT), (''_group_key'', ObjectT)],
                        rows = [(1, [StrV ''A'', StrV ''x1'', StrV ''a''])]\<rparr>),
          (StrV ''c'', \<lparr>columns = [(''Parent'', ObjectT), (''Concept'', ObjectT), (''_group_key'', ObjectT)],
                        rows = [(3, [StrV ''C'', StrV ''x3'', StrV ''c''])]\<rparr>)]"
  by code_simp

lemma bab_groups_either_pandas: "parent_groups Before3 bab_table = parent_groups From3 bab_table"
  by code_simp

text \<open>A parent cell that is missing: its row forms a group \<open>nan\<close> before pandas 3 and is in no group from pandas 3 on.\<close>

lemma orphan_groups:
  "map_sum id (map (\<lambda>g. (fst g, map fst (rows (snd g))))) (parent_groups Before3 orphan_table)
     = Inr [(StrV ''p'', [0, 2]), (StrV ''nan'', [1])]
   \<and> map_sum id (map (\<lambda>g. (fst g, map fst (rows (snd g))))) (parent_groups From3 orphan_table)
     = Inr [(StrV ''p'', [0, 2])]"
  by code_simp

theorem groups_in_first_occurrence_order_witness:
  "rectangular bab_table \<and> columns bab_table \<noteq> []
   \<and> (\<exists>gs df'. parent_groups From3 bab_table = Inr gs
           \<and> generate_parent_grouped_html From3 bab_table ''b''
               = Inr (table_head bab_table
                        @ concat (map (\<lambda>g. group_html ''b'' [1 ..< length (columns bab_table)] (snd g)) gs)
                        @ ''</table>'', df')
           \<and> map fst gs
               = first_seen [] (filter (\<lambda>k. k \<noteq> NaN) (map (group_key_of From3) (rows bab_table)))
           \<and> (\<forall>g\<in>set gs. rows (snd g)
                 = map (keyed_row From3 bab_table)
                       (filter (\<lambda>r. group_key_of From3 r = fst g) (rows bab_table)))
           \<and> (\<forall>g\<in>set gs. map fst (rows (snd g))
                 = map fst (filter (\<lambda>r. group_key_of From3 r = fst g) (rows bab_table)))
           \<and> map fst gs = [StrV ''b'', StrV ''a'', StrV ''c'']
           \<and> map (\<lambda>g. snd (hd (rows (snd g))) ! 0) gs = [StrV ''B'', StrV ''A'', StrV ''C'']
           \<and> map (\<lambda>g. map fst (rows (snd g))) gs = [[0, 2], [1], [3]])"
proof -
  have h: "rectangular bab_table" by (simp add: bab_table_def rectangular_def)
  have h2: "columns bab_table \<noteq> []" by (simp add: bab_table_def)
  from groups_in_first_occurrence_order[OF h h2, of From3 "''b''"]
  obtain gs :: "(cell \<times> table) list" and df' :: table where
    gs: "parent_groups From3 bab_table = Inr gs"
        "generate_parent_grouped_html From3 bab_table ''b''
               = Inr (table_head bab_table
                        @ concat (map (\<lambda>g. group_html ''b'' [1 ..< length (columns bab_table)] (snd g)) gs)
                        @ ''</table>'', df')"
        "map fst gs
               = first_seen [] (filter (\<lambda>k. k \<noteq> NaN) (map (group_key_of From3) (rows bab_table)))"
        "\<forall>g\<in>set gs. rows (snd g)
                 = map (keyed_row From3 bab_table)
                       (filter (\<lambda>r. group_key_of From3 r = fst g) (rows bab_table))"
        "\<forall>g\<in>set gs. map fst (rows (snd g))
                 = map fst (filter (\<lambda>r. group_key_of From3 r = fst g) (rows bab_table))"
    by blast
  have ex: "map fst gs = [StrV ''b'', StrV ''a'', StrV ''c'']"
      "map (\<lambda>g. snd (hd (rows (snd g))) ! 0) gs = [StrV ''B'', StrV ''A'', StrV ''C'']"
      "map (\<lambda>g. map fst (rows (snd g))) gs = [[0, 2], [1], [3]]"
    using gs(1) unfolding bab_groups by auto
  have "\<exists>gs df'. parent_groups From3 bab_table = Inr gs
           \<and> generate_parent_grouped_html From3 bab_table ''b''
               = Inr (table_head bab_table
                        @ concat (map (\<lambda>g. group_html ''b'' [1 ..< length (columns bab_table)] (snd g)) gs)
                        @ ''</table>'', df')
           \<and> map fst gs
               = first_seen [] (filter (\<lambda>k. k \<noteq> NaN) (map (group_key_of From3) (rows bab_table)))
           \<and> (\<forall>g\<in>set gs. rows (snd g)
                 = map (keyed_row From3 bab_table)
                       (filter (\<lambda>r. group_key_of From3 r = fst g) (rows bab_table)))
           \<and> (\<forall>g\<in>set gs. map fst (rows (snd g))
                 = map fst (filter (\<lambda>r. group_key_of From3 r = fst g) (rows bab_table)))
           \<and> map fst gs = [StrV ''b'', StrV ''a'', StrV ''c'']
           \<and> map (\<lambda>g. snd (hd (rows (snd g))) ! 0) gs = [StrV ''B'', StrV ''A'', StrV ''C'']
           \<and> map (\<lambda>g. map fst (rows (snd g))) gs = [[0, 2], [1], [3]]"
  proof (rule exI[of _ gs], rule exI[of _ df'], intro conjI)
    show "parent_groups From3 bab_table = Inr gs" by (rule gs(1))
    show "generate_parent_grouped_html From3 bab_table ''b''
               = Inr (table_head bab_table
                        @ concat (map (\<lambda>g. group_html ''b'' [1 ..< length (columns bab_table)] (snd g)) gs)
                        @ ''</table>'', df')" by (rule gs(2))
    show "map fst gs
               = first_seen [] (filter (\<lambda>k. k \<noteq> NaN) (map (group_key_of From3) (rows bab_table)))"
      by (rule gs(3))
    show "\<forall>g\<in>set gs. rows (snd g)
                 = map (keyed_row From3 bab_table)
                       (filter (\<lambda>r. group_key_of From3 r = fst g) (rows bab_table))" by (rule gs(4))
    show "\<forall>g\<in>set gs. map fst (rows (snd g))
                 = map fst (filter (\<lambda>r. group_key_of From3 r = fst g) (rows bab_table))" by (rule gs(5))
    show "map fst gs = [StrV ''b'', StrV ''a'', StrV ''c'']" by (rule ex(1))
    show "map (\<lambda>g. snd (hd (rows (snd g))) ! 0) gs = [StrV ''B'', StrV ''A'', StrV ''C'']"
      by (rule ex(2))
    show "map (\<lambda>g. map fst (rows (snd g))) gs = [[0, 2], [1], [3]]" by (rule ex(3))
  qed
  then show ?thesis using h h2 by blast
qed

lemma drop_cells_last:
  assumes "length cs = length cols" "n \<notin> set (map fst cols)"
  shows "drop_cells [n] (cols @ [(n, dt)]) (cs @ [v]) = cs"
proof -
  have "filter (\<lambda>p. fst (fst p) \<notin> set [n]) (zip cols cs) = zip cols cs"
    using assms(2) by (intro filter_True) (auto dest!: set_zip_leftD)
  then show ?thesis using assms(1) by (simp add: drop_cells_def)
qed

lemma drop_group_key:
  assumes "rectangular df" "''_group_key'' \<notin> set (map fst (columns df))"
  shows "drop_columns [''_group_key''] (add_group_key pv df) = df"
proof -
  have none: "col_pos ''_group_key'' (columns df) = None" using assms(2) by (simp add: col_pos_None)
  have cols: "columns (add_group_key pv df) = columns df @ [(''_group_key'', ObjectT)]"
    using none by (simp add: add_group_key_def set_column_def)
  have rws: "rows (add_group_key pv df) = map (\<lambda>r. (fst r, snd r @ [group_key_of pv r])) (rows df)"
    unfolding rows_add_group_key using none by (simp add: keyed_row_def)
  have c: "columns (drop_columns [''_group_key''] (add_group_key pv df)) = columns df"
  proof -
    have "\<forall>c\<in>set (columns df). fst c \<noteq> ''_group_key''"
      using assms(2) by (metis image_eqI list.set_map)
    then have "filter (\<lambda>c. fst c \<notin> set [''_group_key'']) (columns df) = columns df"
      by (simp add: filter_id_conv)
    then show ?thesis by (simp add: drop_columns_def cols)
  qed
  have "map (\<lambda>r. (fst r, drop_cells [''_group_key''] (columns (add_group_key pv df)) (snd r)))
            (rows (add_group_key pv df)) = map (\<lambda>r. r) (rows df)"
    unfolding rws cols map_map comp_def
  proof (rule map_cong[OF refl])
    fix r assume "r \<in> set (rows df)"
    then have "length (snd r) = length (columns df)"
      using assms(1) by (auto simp: rectangular_def list_all_iff)
    then show "(fst (fst r, snd r @ [group_key_of pv r]),
             drop_cells [''_group_key''] (columns df @ [(''_group_key'', ObjectT)])
               (snd (fst r, snd r @ [group_key_of pv r]))) = r"
      using drop_cells_last[OF _ assms(2)] by simp
  qed
  then have r: "rows (drop_columns [''_group_key''] (add_group_key pv df)) = rows df"
    by (simp add: drop_columns_def)
  have m: "table.more (drop_columns [''_group_key''] (add_group_key pv df)) = table.more df"
    by (simp add: drop_columns_def add_group_key_def set_column_def split: option.splits)
  show ?thesis using c r m by (rule table.equality)
qed

text \<open>
  Claim C10, as stated, fails for a table that has a column named \<open>_group_key\<close> itself:
  the call overwrites that column with the group keys and then drops it.
\<close>

theorem preview_restores_table_counterexample:
  "df_after Before3 gk_table []
     = Inr \<lparr>columns = [(''Concept'', ObjectT)], rows = [(0, [StrV ''Age''])]\<rparr>
   \<and> df_after From3 gk_table []
     = Inr \<lparr>columns = [(''Concept'', ObjectT)], rows = [(0, [StrV ''Age''])]\<rparr>
   \<and> \<lparr>columns = [(''Concept'', ObjectT)], rows = [(0, [StrV ''Age''])]\<rparr> \<noteq> gk_table"
  by code_simp

text \<open>
  Claim C10, amended. For a table with at least one column and no column named
  \<open>_group_key\<close>, the call returns, and the table then holds exactly the columns and the
  cells it held before.
\<close>

theorem preview_restores_table:
  assumes "rectangular df" and "''_group_key'' \<notin> set (map fst (columns df))"
    and "columns df \<noteq> []"
  shows "(\<exists>html. generate_parent_grouped_html pv df search_term = Inr (html, df))
         \<and> df_after pv df search_term = Inr df"
proof -
  obtain gs where gs: "parent_groups pv df = Inr gs" using parent_groups_eq by blast
  have "generate_parent_grouped_html pv df search_term
           = Inr (table_head df
                    @ concat (map (\<lambda>g. group_html search_term [1 ..< length (columns df)] (snd g)) gs)
                    @ ''</table>'',
                  drop_columns [''_group_key''] (add_group_key pv df))"
    by (rule generate_eq[OF assms(3) gs])
  then have h: "generate_parent_grouped_html pv df search_term
           = Inr (table_head df
                    @ concat (map (\<lambda>g. group_html search_term [1 ..< length (columns df)] (snd g)) gs)
                    @ ''</table>'', df)"
    using drop_group_key[OF assms(1,2), of pv] by simp
  then show ?thesis by (auto simp: df_after_def)
qed

theorem preview_restores_table_witness:
  "rectangular bab_table \<and> ''_group_key'' \<notin> set (map fst (columns bab_table))
   \<and> columns bab_table \<noteq> []
   \<and> (\<exists>html. generate_parent_grouped_html Before3 bab_table ''b'' = Inr (html, bab_table))
   \<and> df_after Before3 bab_table ''b'' = Inr bab_table
   \<and> (\<exists>html. generate_parent_grouped_html From3 bab_table ''b'' = Inr (html, bab_table))
   \<and> df_after From3 bab_table ''b'' = Inr bab_table"
proof -
  have h1: "rectangular bab_table" by (simp add: bab_table_def rectangular_def)
  have h2: "''_group_key'' \<notin> set (map fst (columns bab_table))" by (simp add: bab_table_def)
  have h3: "columns bab_table \<noteq> []" by (simp add: bab_table_def)
  show ?thesis
    using h1 h2 h3 preview_restores_table[OF h1 h2 h3, of Before3 "''b''"]
      preview_restores_table[OF h1 h2 h3, of From3 "''b''"] by blast
qed

section \<open>Properties of the selection and the export\<close>

lemma columns_set_column:
  "columns (set_column n dt vals t)
     = (case col_pos n (columns t) of Some j \<Rightarrow> (columns t)[j := (n, dt)]
                                    | None \<Rightarrow> columns t @ [(n, dt)])"
  by (simp add: set_column_def split: option.splits)

lemma length_rows_set_column:
  "length vals = length (rows t) \<Longrightarrow> length (rows (set_column n dt vals t)) = length (rows t)"
  by (simp add: set_column_def split: option.splits)

lemma set_at_ok:
  assumes "col_pos ''Select'' (columns dg) = Some j"
  shows "\<exists>dg'. set_at l ''Select'' v dg = Inr dg' \<and> columns dg' = columns dg
               \<and> length (rows dg') = length (rows dg)"
  using assms by (simp add: set_at_def)

lemma tick_rows_ok:
  assumes "col_pos ''Select'' (columns dg) = Some j"
  shows "\<exists>dg'. tick_rows ui op irs dg = Inr dg' \<and> columns dg' = columns dg
               \<and> length (rows dg') = length (rows dg)"
  using assms
proof (induction irs arbitrary: dg)
  case Nil then show ?case by simp
next
  case (Cons ir irs)
  let ?v = "BoolV (ui (str_of_cell (snd (snd ir) ! 0)) (str_of_cell op @ ''_'' @ dec_nat (fst ir)))"
  obtain dg1 where dg1: "set_at (fst (snd ir)) ''Select'' ?v dg = Inr dg1"
      "columns dg1 = columns dg" "length (rows dg1) = length (rows dg)"
    using set_at_ok[OF Cons.prems] by blast
  have "col_pos ''Select'' (columns dg1) = Some j" using Cons.prems dg1(2) by simp
  from Cons.IH[OF this] obtain dg' where
    "tick_rows ui op irs dg1 = Inr dg'" "columns dg' = columns dg1"
    "length (rows dg') = length (rows dg1)" by blast
  then show ?case using dg1 by (simp add: Let_def)
qed

lemma display_group_ok:
  "\<exists>dg. display_group_of ui p g = Inr dg \<and> columns dg = display_columns p (columns g)
        \<and> length (rows dg) = length (rows g)"
proof -
  let ?hide = "p # filter definition_column (map fst (columns g)) @ [''_group_key'']"
  let ?d0 = "drop_columns ?hide g"
  let ?d1 = "set_column ''Select'' BoolT (replicate (length (rows ?d0)) (BoolV False)) ?d0"
  obtain j where j: "col_pos ''Select'' (columns ?d1) = Some j"
    using col_pos_set_column by blast
  have c1: "columns ?d1 = display_columns p (columns g)"
    by (simp add: columns_set_column display_columns_def drop_columns_def Let_def
             split: option.splits)
  have l1: "length (rows ?d1) = length (rows g)"
    by (simp add: length_rows_set_column drop_columns_def)
  obtain dg where "tick_rows ui (snd (hd (rows g)) ! 0) (enumerate (rows ?d1)) ?d1 = Inr dg"
    "columns dg = columns ?d1" "length (rows dg) = length (rows ?d1)"
    using tick_rows_ok[OF j] by blast
  then show ?thesis using c1 l1 by (simp add: display_group_of_def Let_def)
qed

lemma collect_groups_ok:
  "\<exists>dgs. collect_groups ui p gs = Inr dgs
         \<and> list_all2 (\<lambda>g dg. columns dg = display_columns p (columns (snd g))
                               \<and> length (rows dg) = length (rows (snd g))) gs dgs"
proof (induction gs)
  case Nil then show ?case by simp
next
  case (Cons g gs)
  obtain dg where dg: "display_group_of ui p (snd g) = Inr dg"
    "columns dg = display_columns p (columns (snd g))" "length (rows dg) = length (rows (snd g))"
    using display_group_ok by blast
  obtain dgs where dgs: "collect_groups ui p gs = Inr dgs"
    "list_all2 (\<lambda>g dg. columns dg = display_columns p (columns (snd g))
                               \<and> length (rows dg) = length (rows (snd g))) gs dgs"
    using Cons.IH by blast
  show ?case using dg dgs by simp
qed

lemma checkbox_section_empty:
  "df_empty fdf \<Longrightarrow> checkbox_section pv ui fdf = Inr (empty_df, fdf)"
  by (simp add: checkbox_section_def)

lemma checkbox_section_nonempty:
  assumes "\<not> df_empty fdf"
  shows "\<exists>grouped dgs. parent_groups pv fdf = Inr grouped
           \<and> (\<forall>g\<in>set grouped. columns (snd g) = columns (add_group_key pv fdf))
           \<and> list_all2 (\<lambda>g dg. columns dg = display_columns (fst (hd (columns fdf))) (columns (snd g))
                               \<and> length (rows dg) = length (rows (snd g))) grouped dgs
           \<and> checkbox_section pv ui fdf
               = Inr (if dgs \<noteq> [] then concat_ignore_index dgs else empty_df, add_group_key pv fdf)"
proof -
  obtain j where g: "parent_groups pv fdf
          = Inr (map (\<lambda>g. (fst g, (add_group_key pv fdf)\<lparr>rows := snd g\<rparr>))
                     (groupby_rows (\<lambda>r. snd r ! j) (rows (add_group_key pv fdf))))"
    using parent_groups_eq by blast
  let ?grouped = "map (\<lambda>g. (fst g, (add_group_key pv fdf)\<lparr>rows := snd g\<rparr>))
                     (groupby_rows (\<lambda>r. snd r ! j) (rows (add_group_key pv fdf)))"
  have c: "\<forall>g\<in>set ?grouped. columns (snd g) = columns (add_group_key pv fdf)" by auto
  obtain dgs where d: "collect_groups ui (fst (hd (columns fdf))) ?grouped = Inr dgs"
    "list_all2 (\<lambda>g dg. columns dg = display_columns (fst (hd (columns fdf))) (columns (snd g))
                               \<and> length (rows dg) = length (rows (snd g))) ?grouped dgs"
    using collect_groups_ok by blast
  have "checkbox_section pv ui fdf
               = Inr (if dgs \<noteq> [] then concat_ignore_index dgs else empty_df, add_group_key pv fdf)"
    using assms g d(1) by (simp add: checkbox_section_def Let_def)
  then show ?thesis using g c d(2) by blast
qed

lemma col_pos_display_columns: "\<exists>j. col_pos ''Select'' (display_columns p cols) = Some j"
  by (cases "col_pos ''Select'' (filter (\<lambda>c. fst c \<notin> set (p # filter definition_column (map fst cols)
                                              @ [''_group_key''])) cols)")
     (simp_all add: display_columns_def Let_def col_pos_append col_pos_update)

lemma final_filtered_of_ok:
  assumes "df_empty et \<or> (\<exists>j. col_pos ''Select'' (columns et) = Some j)"
  shows "\<exists>ff. final_filtered_of et = Inr ff
          \<and> (df_empty et \<longrightarrow> ff = empty_df)
          \<and> (\<not> df_empty et \<longrightarrow> columns ff = filter (\<lambda>c. fst c \<noteq> ''Select'') (columns et)
                \<and> (\<exists>j. col_pos ''Select'' (columns et) = Some j
                      \<and> rows ff = rows (drop_columns [''Select'']
                           (mask_rows et (map (\<lambda>v. v = BoolV True) (col j et))))))"
proof (cases "df_empty et")
  case True then show ?thesis by (simp add: final_filtered_of_def)
next
  case False
  then obtain j where j: "col_pos ''Select'' (columns et) = Some j" using assms by blast
  let ?m = "mask_rows et (map (\<lambda>v. v = BoolV True) (col j et))"
  have "''Select'' \<in> set (map fst (columns ?m))"
    using j col_pos_None[of "''Select''" "columns et"] by (simp add: mask_rows_def)
  then have "drop_columns_strict [''Select''] ?m = Inr (drop_columns [''Select''] ?m)"
    by (simp add: drop_columns_strict_def)
  then show ?thesis using False j
    by (simp add: final_filtered_of_def drop_columns_def mask_rows_def)
qed

lemma first_non_source_Some:
  "first_non_source ns = Some n \<Longrightarrow>
     \<exists>j<length ns. ns ! j = n \<and> n \<noteq> ''Source_File'' \<and> (\<forall>i<j. ns ! i = ''Source_File'')"
proof (induction ns)
  case Nil then show ?case by simp
next
  case (Cons c cs)
  show ?case
  proof (cases "c \<noteq> ''Source_File''")
    case True
    then have "n = c" using Cons.prems by simp
    then show ?thesis using True by (intro exI[of _ 0]) simp
  next
    case False
    then have "first_non_source cs = Some n" using Cons.prems by simp
    from Cons.IH[OF this] obtain j where j: "j < length cs" "cs ! j = n" "n \<noteq> ''Source_File''"
      "\<forall>i<j. cs ! i = ''Source_File''" by blast
    have "\<forall>i<Suc j. (c # cs) ! i = ''Source_File''"
      using False j(4) by (auto simp: nth_Cons split: nat.splits)
    then show ?thesis using j by (intro exI[of _ "Suc j"]) simp
  qed
qed







lemma col_data_of_eq:
  assumes "c = column_to_export_of ff fdf1"
  shows "col_data_of c ff = Inr [exported_sequence c ff]"
proof (cases c)
  case None then show ?thesis by (simp add: col_data_of_def exported_sequence_def)
next
  case (Some n)
  show ?thesis
  proof (cases "n = []")
    case True then show ?thesis using Some by (simp add: col_data_of_def exported_sequence_def)
  next
    case False
    show ?thesis
    proof (cases "df_empty ff")
      case True
      have "(case col_pos n (columns ff) of None \<Rightarrow> [] | Some j \<Rightarrow> dropna (col j ff)) = []"
        using True by (auto simp: df_empty_def col_def dropna_def split: option.splits)
      then show ?thesis using Some False True by (simp add: col_data_of_def exported_sequence_def)
    next
      case ne: False
      then have "first_non_source (map fst (columns ff)) = Some n"
        using assms Some by (simp add: column_to_export_of_def)
      then have "n \<in> set (map fst (columns ff))"
        using first_non_source_Some by (metis nth_mem)
      then obtain j where "col_pos n (columns ff) = Some j"
        using col_pos_None[of n "columns ff"] by (cases "col_pos n (columns ff)") auto
      then show ?thesis using Some False ne by (simp add: col_data_of_def exported_sequence_def)
    qed
  qed
qed

lemma editable_table_ok:
  "\<exists>et fdf1. checkbox_section pv ui fdf = Inr (et, fdf1)
      \<and> (df_empty et \<or> (\<exists>j. col_pos ''Select'' (columns et) = Some j))"
proof (cases "df_empty fdf")
  case True
  then show ?thesis by (simp add: checkbox_section_empty empty_df_def df_empty_def)
next
  case False
  from checkbox_section_nonempty[OF False, of pv ui]
  obtain grouped :: "(cell \<times> table) list" and dgs :: "table list" where
    c: "list_all2 (\<lambda>g dg. columns dg = display_columns (fst (hd (columns fdf))) (columns (snd g))
                               \<and> length (rows dg) = length (rows (snd g))) grouped dgs"
       "checkbox_section pv ui fdf
               = Inr (if dgs \<noteq> [] then concat_ignore_index dgs else empty_df, add_group_key pv fdf)"
    by blast
  show ?thesis
  proof (cases dgs)
    case Nil then show ?thesis using c(2) by (simp add: empty_df_def df_empty_def)
  next
    case (Cons dg dgs')
    then obtain g :: "cell \<times> table" and gs' where "grouped = g # gs'"
      "columns dg = display_columns (fst (hd (columns fdf))) (columns (snd g))"
      using c(1) by (auto simp: list_all2_Cons2)
    then have "\<exists>j. col_pos ''Select'' (columns (concat_ignore_index dgs)) = Some j"
      using Cons col_pos_display_columns by (simp add: concat_ignore_index_def)
    then show ?thesis using c(2) Cons by auto
  qed
qed

lemma export_section_eq:
  "\<exists>et fdf1 ff. checkbox_section pv ui fdf = Inr (et, fdf1) \<and> final_filtered_of et = Inr ff
      \<and> selected_table pv ui fdf = Inr ff
      \<and> export_section pv ui fdf
          = Inr \<lparr>column_to_export = column_to_export_of ff fdf1,
                 sheet = [exported_sequence (column_to_export_of ff fdf1) ff],
                 sheet_name = ''SelectedColumn'', download = ''new_meta_schema.xlsx''\<rparr>"
proof -
  obtain et fdf1 where e: "checkbox_section pv ui fdf = Inr (et, fdf1)"
      "df_empty et \<or> (\<exists>j. col_pos ''Select'' (columns et) = Some j)"
    using editable_table_ok by blast
  obtain ff where f: "final_filtered_of et = Inr ff" using final_filtered_of_ok[OF e(2)] by blast
  have s: "selected_table pv ui fdf = Inr ff" using e(1) f by (simp add: selected_table_def)
  have "col_data_of (column_to_export_of ff fdf1) ff
          = Inr [exported_sequence (column_to_export_of ff fdf1) ff]"
    by (rule col_data_of_eq) simp
  then have "export_section pv ui fdf
          = Inr \<lparr>column_to_export = column_to_export_of ff fdf1,
                 sheet = [exported_sequence (column_to_export_of ff fdf1) ff],
                 sheet_name = ''SelectedColumn'', download = ''new_meta_schema.xlsx''\<rparr>"
    using e(1) f by (simp add: export_section_def Let_def)
  then show ?thesis using e(1) f s by blast
qed






text \<open>
  Claim C1 fails on the code. With no row selected, lines 196 to 200 do choose a column
  of the filtered table, but line 203 then writes an empty frame, because
  \<open>final_filtered\<close> is empty: for a filtered table of three rows and no selection the
  sheet holds no value, where the claim has the three values of the target column.
\<close>

theorem export_fallback_missing:
  "export_section Before3 no_ticks three_rows
     = Inr \<lparr>column_to_export = Some ''Parent'', sheet = [[]],
            sheet_name = ''SelectedColumn'', download = ''new_meta_schema.xlsx''\<rparr>
   \<and> export_section From3 no_ticks three_rows
     = Inr \<lparr>column_to_export = Some ''Parent'', sheet = [[]],
            sheet_name = ''SelectedColumn'', download = ''new_meta_schema.xlsx''\<rparr>
   \<and> dropna (col 0 three_rows) = [StrV ''Person'', StrV ''Person'', StrV ''Visit'']"
  by code_simp

text \<open>
  Claim C2, as stated, fails: with three rows selected the sheet is one row of three
  cells, not one column of three cells.
\<close>

theorem export_sheet_counterexample:
  "export_section Before3 all_ticks three_rows
     = Inr \<lparr>column_to_export = Some ''Concept'',
            sheet = [[StrV ''Age'', StrV ''Height'', StrV ''Date'']],
            sheet_name = ''SelectedColumn'', download = ''new_meta_schema.xlsx''\<rparr>
   \<and> export_section From3 all_ticks three_rows
     = Inr \<lparr>column_to_export = Some ''Concept'',
            sheet = [[StrV ''Age'', StrV ''Height'', StrV ''Date'']],
            sheet_name = ''SelectedColumn'', download = ''new_meta_schema.xlsx''\<rparr>
   \<and> [[StrV ''Age'', StrV ''Height'', StrV ''Date'']]
       \<noteq> [[StrV ''Age''], [StrV ''Height''], [StrV ''Date'']]"
  by code_simp

text \<open>
  Claim C2, amended. Every export is a sheet of exactly one row and no header row, whose
  cells are the exported sequence of values in order, offered under the name
  \<open>new_meta_schema.xlsx\<close>.
\<close>

theorem export_sheet_single_row:
  "\<exists>ex ff. export_section pv ui filtered_df = Inr ex \<and> selected_table pv ui filtered_df = Inr ff
      \<and> sheet ex = [exported_sequence (column_to_export ex) ff]
      \<and> length (sheet ex) = 1
      \<and> download ex = ''new_meta_schema.xlsx''"
proof -
  obtain fdf1 :: table and ff :: table where
    "selected_table pv ui filtered_df = Inr ff"
    "export_section pv ui filtered_df
          = Inr \<lparr>column_to_export = column_to_export_of ff fdf1,
                 sheet = [exported_sequence (column_to_export_of ff fdf1) ff],
                 sheet_name = ''SelectedColumn'', download = ''new_meta_schema.xlsx''\<rparr>"
    using export_section_eq by blast
  then show ?thesis by simp
qed

theorem export_sheet_single_row_witness:
  "\<exists>ex ff. export_section From3 all_ticks three_rows = Inr ex
      \<and> selected_table From3 all_ticks three_rows = Inr ff
      \<and> sheet ex = [exported_sequence (column_to_export ex) ff]
      \<and> length (sheet ex) = 1
      \<and> download ex = ''new_meta_schema.xlsx''"
  by (rule export_sheet_single_row)




section \<open>Properties of the global search\<close>

lemma text_search_empty_query: "text_search pv df [] = Inr df"
  by (simp add: text_search_def)

lemma re_compile_literal:
  "\<forall>c\<in>set q. \<not> re_meta c \<Longrightarrow> re_compile q = Some (map Lit q)"
  by (induction q) (auto simp: re_meta_def)

lemma re_match_here_literal:
  "re_match_here (map Lit q) s = prefix (py_lower q) (py_lower s)"
proof (induction q arbitrary: s)
  case Nil then show ?case by (simp add: py_lower_def)
next
  case (Cons c q)
  show ?case
  proof (cases s)
    case Nil then show ?thesis by (simp add: py_lower_def)
  next
    case (Cons d ds)
    then show ?thesis using Cons.IH[of ds] by (auto simp: py_lower_def)
  qed
qed

lemma re_search_literal:
  "re_search (map Lit q) s = sublist (py_lower q) (py_lower s)"
proof (induction s)
  case Nil
  then show ?case by (cases q) (simp_all add: py_lower_def)
next
  case (Cons c cs)
  have "re_search (map Lit q) (c # cs)
          = (prefix (py_lower q) (py_lower (c # cs)) \<or> sublist (py_lower q) (py_lower cs))"
    using Cons.IH by (simp add: re_match_here_literal)
  then show ?case by (simp add: py_lower_def sublist_Cons_right)
qed

lemma or_masks: "map2 (\<or>) (map M xs) (map N xs) = map (\<lambda>x. M x \<or> N x) xs"
  by (induction xs) auto

lemma str_contains_column:
  "re_compile q = Some p \<Longrightarrow>
   str_contains q (astype_str pv (col j df))
     = Inr (map (\<lambda>r. case astype_cell pv (snd r ! j) of StrV s \<Rightarrow> re_search p s | _ \<Rightarrow> False)
                (rows df))"
  by (simp add: str_contains_def astype_str_def col_def comp_def)

lemma or_columns_compiled:
  assumes "re_compile q = Some p"
  shows "or_columns pv df q js (map M (rows df))
           = Inr (map (\<lambda>r. M r \<or> list_ex (\<lambda>j. case astype_cell pv (snd r ! j) of
                                                  StrV s \<Rightarrow> re_search p s | _ \<Rightarrow> False) js)
                      (rows df))"
proof (induction js arbitrary: M)
  case Nil then show ?case by simp
next
  case (Cons j js)
  have "or_columns pv df q (j # js) (map M (rows df))
      = or_columns pv df q js
          (map (\<lambda>r. M r \<or> (case astype_cell pv (snd r ! j) of
                               StrV s \<Rightarrow> re_search p s | _ \<Rightarrow> False)) (rows df))"
    by (simp add: str_contains_column[OF assms] or_masks)
  then show ?case
    using Cons.IH[of "\<lambda>r. M r \<or> (case astype_cell pv (snd r ! j) of
                               StrV s \<Rightarrow> re_search p s | _ \<Rightarrow> False)"]
    by simp
qed

lemma select_by_predicate: "map fst (filter snd (zip xs (map P xs))) = filter P xs"
  by (induction xs) auto

text \<open>
  For a query without any metacharacter of the pattern syntax, \<open>text_search\<close> is the
  search for a literal substring without case that the specification describes.
\<close>

lemma text_search_literal_query:
  assumes "\<forall>c\<in>set query. \<not> re_meta c"
  shows "text_search pv df query = Inr (literal_search pv df query)"
proof (cases "query = []")
  case True then show ?thesis by (simp add: text_search_def literal_search_def)
next
  case False
  have c: "re_compile query = Some (map Lit query)" by (rule re_compile_literal[OF assms])
  have m: "(case x of StrV s \<Rightarrow> re_search (map Lit query) s | _ \<Rightarrow> False)
             = cell_contains_ci query x" for x
    by (cases x) (simp_all add: cell_contains_ci_def contains_ci_def re_search_literal)
  have "replicate (length (rows df)) False = map (\<lambda>r. False) (rows df)"
    by (simp add: map_replicate_const)
  then have "or_columns pv df query (select_dtypes_object df) (replicate (length (rows df)) False)
      = Inr (map (row_matches pv df query) (rows df))"
    using or_columns_compiled[OF c, of pv df "select_dtypes_object df" "\<lambda>r. False"]
    by (simp add: row_matches_def m)
  then show ?thesis using False
    by (simp add: text_search_def literal_search_def mask_rows_def select_by_predicate)
qed

text \<open>
  Claim C4 fails on the code. The query \<open>a.c\<close> is read as a pattern whose dot stands
  for any character: the search returns the row \<open>abc\<close> as well, which does not contain
  the query as a substring, while \<open>format_cell\<close>, which escapes the same term before
  compiling it, finds nothing to highlight in that row.
\<close>

theorem text_search_reads_query_as_pattern:
  "text_search Before3 dot_table ''a.c''
     = Inr \<lparr>columns = [(''Concept'', ObjectT)], rows = [(0, [StrV ''abc'']), (1, [StrV ''a.c''])]\<rparr>
   \<and> text_search From3 dot_table ''a.c''
     = Inr \<lparr>columns = [(''Concept'', ObjectT)], rows = [(0, [StrV ''abc'']), (1, [StrV ''a.c''])]\<rparr>
   \<and> literal_search From3 dot_table ''a.c''
     = \<lparr>columns = [(''Concept'', ObjectT)], rows = [(1, [StrV ''a.c''])]\<rparr>
   \<and> literal_search Before3 dot_table ''a.c''
     = \<lparr>columns = [(''Concept'', ObjectT)], rows = [(1, [StrV ''a.c''])]\<rparr>
   \<and> format_cell (StrV ''abc'') ''a.c'' = ''abc''"
  by code_simp

end
